theory Spec2Isabelle
  imports Main "HOL-Library.AList" "HOL-Library.Word"
begin

section \<open>Common JavaScript notions\<close>

text \<open>
  A JavaScript string is a sequence of UTF-16 code units and \<open>.length\<close> counts them.
  Message content is modelled that way; identifiers (connection, user and room ids, frame
  types) are plain strings.  A JavaScript \<open>Map\<close> iterates in insertion order, \<open>set\<close> on
  a present key keeps its position and \<open>delete\<close> removes the entry: an association list
  with \<open>AList.update\<close> and \<open>AList.delete\<close>, read with \<open>map_of\<close>.  A \<open>Set\<close> of ids
  is a list without repetition.  Time is the value of \<open>Date.now()\<close> in milliseconds, given
  to each handler as \<open>now\<close>; \<open>uuidv4()\<close> is a parameter as well.
\<close>

type_synonym jsstring = "16 word list"

text \<open>Truthiness of an optional string: \<open>undefined\<close> and \<open>""\<close> are falsy.\<close>

definition truthy :: "'a list option \<Rightarrow> bool" where
  "truthy x = (case x of None \<Rightarrow> False | Some v \<Rightarrow> v \<noteq> [])"

text \<open>The code units that \<open>String.prototype.trim\<close> strips (WhiteSpace and LineTerminator).\<close>

definition isWhiteSpace :: "16 word \<Rightarrow> bool" where
  "isWhiteSpace c \<longleftrightarrow>
     c = 0x0009 \<or> c = 0x000A \<or> c = 0x000B \<or> c = 0x000C \<or> c = 0x000D \<or> c = 0x0020 \<or>
     c = 0x00A0 \<or> c = 0x1680 \<or> (0x2000 \<le> c \<and> c \<le> 0x200A) \<or> c = 0x2028 \<or>
     c = 0x2029 \<or> c = 0x202F \<or> c = 0x205F \<or> c = 0x3000 \<or> c = 0xFEFF"

definition trim :: "jsstring \<Rightarrow> jsstring" where
  "trim s = rev (dropWhile isWhiteSpace (rev (dropWhile isWhiteSpace s)))"

section \<open>The rate limiter (src/lib/security/validation.ts)\<close>

record RateLimiter =
  attempts :: "(string \<times> int list) list"
  maxAttempts :: nat
  windowMs :: int

definition isAllowed :: "int \<Rightarrow> string \<Rightarrow> RateLimiter \<Rightarrow> bool \<times> RateLimiter" where
  "isAllowed now identifier rl =
     (let userAttempts = (case map_of (attempts rl) identifier of None \<Rightarrow> [] | Some a \<Rightarrow> a);
          validAttempts = filter (\<lambda>timestamp. now - timestamp < windowMs rl) userAttempts
      in if length validAttempts \<ge> maxAttempts rl then (False, rl)
         else (True, rl\<lparr>attempts := AList.update identifier (validAttempts @ [now]) (attempts rl)\<rparr>))"

definition messageRateLimiter :: RateLimiter where
  "messageRateLimiter = \<lparr>attempts = [], maxAttempts = 10, windowMs = 60 * 1000\<rparr>"

section \<open>The standalone server (server/websocket/server.ts)\<close>

subsection \<open>State\<close>

text \<open>
  \<open>wsOpen\<close> stands for \<open>ws.readyState === WebSocket.OPEN\<close>; the other fields are those of
  the interface \<open>ClientConnection\<close>.
\<close>

record ClientConnection =
  conn_id :: string
  wsOpen :: bool
  userId :: "string option"
  username :: "string option"
  roomId :: "string option"
  lastPing :: int
  isAlive :: bool

record Room =
  room_id :: string
  clients :: "string list"
  createdAt :: int
  lastActivity :: int

record server =
  clientsMap :: "(string \<times> ClientConnection) list"
  roomsMap :: "(string \<times> Room) list"
  limiter :: RateLimiter

text \<open>
  An inbound frame after \<open>JSON.parse\<close>: the fields of \<open>WebSocketMessage\<close> the handlers
  read.  A frame without a \<open>type\<close> has \<open>msg_type = ''undefined''\<close>, which is what the
  template string of the rate-limit key makes of it and which the \<open>switch\<close> sends to
  \<open>default\<close> like any unknown type.
\<close>

record WebSocketMessage =
  msg_type :: string
  msg_roomId :: "string option"
  msg_userId :: "string option"
  msg_username :: "string option"
  msg_id :: "string option"
  data_content :: "jsstring option"
  data_type :: "string option"
  data_encrypted :: "bool option"
  data_typing :: "bool option"

record participant =
  p_id :: string
  p_username :: string
  p_isOnline :: bool

record chat_data =
  cd_id :: string
  cd_content :: jsstring
  cd_senderId :: "string option"
  cd_senderName :: "string option"
  cd_type :: string
  cd_encrypted :: bool

text \<open>Outbound frames, and the transport-level ping of the heartbeat.\<close>

datatype event =
    Connection string int
  | Error string
  | UserJoined string string string int
  | RoomJoined string "participant list"
  | ChatMessage string "string option" "string option" chat_data int
  | Typing string "string option" "string option" bool int
  | Pong int
  | UserLeft string string string int
  | WsPing

type_synonym outbox = "(string \<times> event) list"

definition initial_server :: server where
  "initial_server = \<lparr>clientsMap = [], roomsMap = [], limiter = messageRateLimiter\<rparr>"

subsection \<open>Sending\<close>

definition sendToClient :: "string \<Rightarrow> event \<Rightarrow> server \<Rightarrow> outbox" where
  "sendToClient clientId message s =
     (case map_of (clientsMap s) clientId of
        None \<Rightarrow> []
      | Some client \<Rightarrow> if \<not> wsOpen client then [] else [(clientId, message)])"

definition broadcastToRoom :: "string \<Rightarrow> event \<Rightarrow> string option \<Rightarrow> server \<Rightarrow> outbox" where
  "broadcastToRoom rid message excludeClientId s =
     (case map_of (roomsMap s) rid of
        None \<Rightarrow> []
      | Some room \<Rightarrow>
          concat (map (\<lambda>clientId. if Some clientId \<noteq> excludeClientId
                                   then sendToClient clientId message s else [])
                      (clients room)))"

definition getRoomParticipants :: "string \<Rightarrow> server \<Rightarrow> participant list" where
  "getRoomParticipants rid s =
     (case map_of (roomsMap s) rid of
        None \<Rightarrow> []
      | Some room \<Rightarrow>
          concat (map (\<lambda>clientId.
                    case map_of (clientsMap s) clientId of
                      None \<Rightarrow> []
                    | Some client \<Rightarrow>
                        (case (userId client, username client) of
                           (Some u, Some n) \<Rightarrow>
                             if u \<noteq> [] \<and> n \<noteq> []
                             then [\<lparr>p_id = u, p_username = n, p_isOnline = True\<rparr>] else []
                         | _ \<Rightarrow> []))
                  (clients room)))"

subsection \<open>Handlers\<close>

definition leaveRoom :: "int \<Rightarrow> string \<Rightarrow> string \<Rightarrow> server \<Rightarrow> server \<times> outbox" where
  "leaveRoom now clientId rid s =
     (case (map_of (clientsMap s) clientId, map_of (roomsMap s) rid) of
        (Some client, Some room) \<Rightarrow>
          let room' = room\<lparr>clients := removeAll clientId (clients room)\<rparr>;
              s1 = s\<lparr>roomsMap := AList.update rid room' (roomsMap s)\<rparr>;
              out = (case (userId client, username client) of
                       (Some u, Some n) \<Rightarrow>
                         if u \<noteq> [] \<and> n \<noteq> []
                         then broadcastToRoom rid (UserLeft rid u n now) (Some clientId) s1
                         else []
                     | _ \<Rightarrow> []);
              s2 = (if clients room' = []
                    then s1\<lparr>roomsMap := AList.delete rid (roomsMap s1)\<rparr> else s1);
              s3 = s2\<lparr>clientsMap :=
                        AList.update clientId (client\<lparr>roomId := None\<rparr>) (clientsMap s2)\<rparr>
          in (s3, out)
      | _ \<Rightarrow> (s, []))"

text \<open>
  The part of \<open>handleJoinRoom\<close> after the implicit leave: rebind the identity, create
  the room if absent, add the connection, notify the others, confirm to the sender.
\<close>

definition enterRoom :: "int \<Rightarrow> string \<Rightarrow> string \<Rightarrow> string \<Rightarrow> string \<Rightarrow> server \<Rightarrow> server \<times> outbox" where
  "enterRoom now clientId rid uid uname s =
     (case map_of (clientsMap s) clientId of
        None \<Rightarrow> (s, [])
      | Some client \<Rightarrow>
          let s1 = s\<lparr>clientsMap := AList.update clientId
                        (client\<lparr>userId := Some uid, username := Some uname, roomId := Some rid\<rparr>)
                        (clientsMap s)\<rparr>;
              room = (case map_of (roomsMap s1) rid of
                        None \<Rightarrow> \<lparr>room_id = rid, clients = [], createdAt = now, lastActivity = now\<rparr>
                      | Some r \<Rightarrow> r);
              room' = room\<lparr>clients := (if clientId \<in> set (clients room) then clients room
                                          else clients room @ [clientId]),
                           lastActivity := now\<rparr>;
              s2 = s1\<lparr>roomsMap := AList.update rid room' (roomsMap s1)\<rparr>
          in (s2, broadcastToRoom rid (UserJoined rid uid uname now) (Some clientId) s2
                  @ sendToClient clientId (RoomJoined rid (getRoomParticipants rid s2)) s2))"

definition handleJoinRoom :: "int \<Rightarrow> string \<Rightarrow> WebSocketMessage \<Rightarrow> server \<Rightarrow> server \<times> outbox" where
  "handleJoinRoom now clientId message s =
     (case map_of (clientsMap s) clientId of
        None \<Rightarrow> (s, [])
      | Some client \<Rightarrow>
          (case (msg_roomId message, msg_userId message, msg_username message) of
             (Some rid, Some uid, Some uname) \<Rightarrow>
               if rid = [] \<or> uid = [] \<or> uname = [] then (s, [])
               else
                 let (s1, out1) = (case roomId client of
                                     None \<Rightarrow> (s, [])
                                   | Some cur \<Rightarrow> if cur = [] then (s, [])
                                                 else leaveRoom now clientId cur s);
                     (s2, out2) = enterRoom now clientId rid uid uname s1
                 in (s2, out1 @ out2)
           | _ \<Rightarrow> (s, [])))"

definition handleChatMessage :: "int \<Rightarrow> string \<Rightarrow> string \<Rightarrow> WebSocketMessage \<Rightarrow> server \<Rightarrow> server \<times> outbox" where
  "handleChatMessage now uuid clientId message s =
     (case map_of (clientsMap s) clientId of
        None \<Rightarrow> (s, [])
      | Some client \<Rightarrow>
          (case (roomId client, data_content message) of
             (Some rid, Some content) \<Rightarrow>
               if rid = [] \<or> content = [] then (s, [])
               else
                 (case map_of (roomsMap s) rid of
                    None \<Rightarrow> (s, [])
                  | Some room \<Rightarrow>
                      let s1 = s\<lparr>roomsMap := AList.update rid (room\<lparr>lastActivity := now\<rparr>) (roomsMap s)\<rparr>;
                          chatMessage = ChatMessage rid (userId client) (username client)
                            \<lparr>cd_id = (case msg_id message of
                                        None \<Rightarrow> uuid
                                      | Some i \<Rightarrow> if i = [] then uuid else i),
                             cd_content = content,
                             cd_senderId = userId client,
                             cd_senderName = username client,
                             cd_type = (case data_type message of
                                          None \<Rightarrow> ''text''
                                        | Some t \<Rightarrow> if t = [] then ''text'' else t),
                             cd_encrypted = (case data_encrypted message of
                                               None \<Rightarrow> False | Some e \<Rightarrow> e)\<rparr>
                            now
                      in (s1, broadcastToRoom rid chatMessage None s1))
           | _ \<Rightarrow> (s, [])))"

definition handleTyping :: "int \<Rightarrow> string \<Rightarrow> WebSocketMessage \<Rightarrow> server \<Rightarrow> server \<times> outbox" where
  "handleTyping now clientId message s =
     (case map_of (clientsMap s) clientId of
        None \<Rightarrow> (s, [])
      | Some client \<Rightarrow>
          (case roomId client of
             None \<Rightarrow> (s, [])
           | Some rid \<Rightarrow>
               if rid = [] then (s, [])
               else
                 (case map_of (roomsMap s) rid of
                    None \<Rightarrow> (s, [])
                  | Some room \<Rightarrow>
                      (s, broadcastToRoom rid
                            (Typing rid (userId client) (username client)
                               (case data_typing message of None \<Rightarrow> False | Some t \<Rightarrow> t) now)
                            (Some clientId) s))))"

definition handlePing :: "int \<Rightarrow> string \<Rightarrow> server \<Rightarrow> server \<times> outbox" where
  "handlePing now clientId s =
     (case map_of (clientsMap s) clientId of
        None \<Rightarrow> (s, [])
      | Some client \<Rightarrow>
          let s1 = s\<lparr>clientsMap := AList.update clientId
                        (client\<lparr>lastPing := now, isAlive := True\<rparr>) (clientsMap s)\<rparr>
          in (s1, sendToClient clientId (Pong now) s1))"

definition handleDisconnect :: "int \<Rightarrow> string \<Rightarrow> server \<Rightarrow> server \<times> outbox" where
  "handleDisconnect now clientId s =
     (case map_of (clientsMap s) clientId of
        None \<Rightarrow> (s, [])
      | Some client \<Rightarrow>
          let (s1, out) = (case roomId client of
                             None \<Rightarrow> (s, [])
                           | Some cur \<Rightarrow> if cur = [] then (s, [])
                                         else leaveRoom now clientId cur s)
          in (s1\<lparr>clientsMap := AList.delete clientId (clientsMap s1)\<rparr>, out))"

text \<open>
  \<open>handleMessage\<close>: \<open>rawData = None\<close> is a frame on which \<open>JSON.parse\<close> (or the read of
  \<open>message.type\<close>) throws; the \<open>catch\<close> answers it.
\<close>

definition handleMessage :: "int \<Rightarrow> string \<Rightarrow> string \<Rightarrow> WebSocketMessage option \<Rightarrow> server \<Rightarrow> server \<times> outbox" where
  "handleMessage now uuid clientId rawData s =
     (case map_of (clientsMap s) clientId of
        None \<Rightarrow> (s, [])
      | Some client \<Rightarrow>
          (case rawData of
             None \<Rightarrow> (s, sendToClient clientId (Error ''Invalid message format'') s)
           | Some message \<Rightarrow>
               let rateLimitKey = clientId @ '':'' @ msg_type message;
                   (allowed, rl) = isAllowed now rateLimitKey (limiter s)
               in if \<not> allowed
                  then (s, sendToClient clientId (Error ''Rate limit exceeded'') s)
                  else
                    let s1 = s\<lparr>limiter := rl\<rparr>
                    in if msg_type message = ''join_room'' then handleJoinRoom now clientId message s1
                       else if msg_type message = ''message'' then handleChatMessage now uuid clientId message s1
                       else if msg_type message = ''typing'' then handleTyping now clientId message s1
                       else if msg_type message = ''ping'' then handlePing now clientId s1
                       else (s1, [])))"

subsection \<open>Transport events and the two periodic sweeps\<close>

text \<open>
  The \<open>connection\<close> handler of \<open>setupEventHandlers\<close> (\<open>clientId\<close> is the \<open>uuidv4()\<close> it
  draws), its \<open>pong\<close> handler, and a socket whose \<open>readyState\<close> leaves \<open>OPEN\<close>.  The
  \<open>close\<close> and \<open>error\<close> handlers are \<open>handleDisconnect\<close>.
\<close>

definition onConnection :: "int \<Rightarrow> string \<Rightarrow> server \<Rightarrow> server \<times> outbox" where
  "onConnection now clientId s =
     (let client = \<lparr>conn_id = clientId, wsOpen = True, userId = None, username = None,
                     roomId = None, lastPing = now, isAlive = True\<rparr>;
          s1 = s\<lparr>clientsMap := AList.update clientId client (clientsMap s)\<rparr>
      in (s1, sendToClient clientId (Connection clientId now) s1))"

definition onPong :: "int \<Rightarrow> string \<Rightarrow> server \<Rightarrow> server" where
  "onPong now clientId s =
     (case map_of (clientsMap s) clientId of
        None \<Rightarrow> s
      | Some client \<Rightarrow>
          s\<lparr>clientsMap := AList.update clientId
                 (client\<lparr>isAlive := True, lastPing := now\<rparr>) (clientsMap s)\<rparr>)"

definition socketNotOpen :: "string \<Rightarrow> server \<Rightarrow> server" where
  "socketNotOpen clientId s =
     (case map_of (clientsMap s) clientId of
        None \<Rightarrow> s
      | Some client \<Rightarrow>
          s\<lparr>clientsMap := AList.update clientId (client\<lparr>wsOpen := False\<rparr>) (clientsMap s)\<rparr>)"

text \<open>
  One callback of \<open>startHeartbeat\<close>.  \<open>clients.forEach\<close> visits the entries present when
  it reaches them; a visit removes at most the visited entry, so the loop is a fold over
  the keys with a lookup in the current state.  \<open>ws.terminate()\<close> closes the socket.
\<close>

definition heartbeatClient :: "int \<Rightarrow> string \<Rightarrow> server \<times> outbox \<Rightarrow> server \<times> outbox" where
  "heartbeatClient now clientId acc =
     (case acc of (s, out) \<Rightarrow>
        (case map_of (clientsMap s) clientId of
           None \<Rightarrow> (s, out)
         | Some client \<Rightarrow>
             if \<not> isAlive client
             then
               let s0 = s\<lparr>clientsMap := AList.update clientId (client\<lparr>wsOpen := False\<rparr>) (clientsMap s)\<rparr>;
                   (s1, out1) = handleDisconnect now clientId s0
               in (s1, out @ out1)
             else
               (s\<lparr>clientsMap := AList.update clientId (client\<lparr>isAlive := False\<rparr>) (clientsMap s)\<rparr>,
                out @ (if wsOpen client then [(clientId, WsPing)] else []))))"

definition heartbeat :: "int \<Rightarrow> server \<Rightarrow> server \<times> outbox" where
  "heartbeat now s = fold (heartbeatClient now) (map fst (clientsMap s)) (s, [])"

text \<open>
  One callback of \<open>startCleanup\<close>: first the rooms, then the clients.  The loop over the
  rooms deletes the visited entry when its test holds, so it keeps exactly the entries
  for which the test fails.
\<close>

definition roomTimeout :: int where
  "roomTimeout = 60 * 60 * 1000"

definition cleanupRooms :: "int \<Rightarrow> server \<Rightarrow> server" where
  "cleanupRooms now s =
     s\<lparr>roomsMap := filter (\<lambda>(rid, room). \<not> (now - lastActivity room > roomTimeout)) (roomsMap s)\<rparr>"

definition cleanupClient :: "int \<Rightarrow> string \<Rightarrow> server \<times> outbox \<Rightarrow> server \<times> outbox" where
  "cleanupClient now clientId acc =
     (case acc of (s, out) \<Rightarrow>
        (case map_of (clientsMap s) clientId of
           None \<Rightarrow> (s, out)
         | Some client \<Rightarrow>
             if now - lastPing client > 60000
             then let (s1, out1) = handleDisconnect now clientId s in (s1, out @ out1)
             else (s, out)))"

definition cleanupClients :: "int \<Rightarrow> server \<Rightarrow> server \<times> outbox" where
  "cleanupClients now s = fold (cleanupClient now) (map fst (clientsMap s)) (s, [])"

definition cleanup :: "int \<Rightarrow> server \<Rightarrow> server \<times> outbox" where
  "cleanup now s = cleanupClients now (cleanupRooms now s)"

text \<open>
  The states the server can be in: it starts with no client and no room, and every
  callback it registers takes it from one state to the next.  \<open>uuidv4()\<close> gives a
  connection an id that no registered connection has.
\<close>

inductive reachable :: "server \<Rightarrow> bool" where
  r_init: "reachable initial_server"
| r_connection: "reachable s \<Longrightarrow> clientId \<notin> fst ` set (clientsMap s)
      \<Longrightarrow> reachable (fst (onConnection now clientId s))"
| r_message: "reachable s \<Longrightarrow> reachable (fst (handleMessage now uuid clientId rawData s))"
| r_close: "reachable s \<Longrightarrow> reachable (fst (handleDisconnect now clientId s))"
| r_pong: "reachable s \<Longrightarrow> reachable (onPong now clientId s)"
| r_not_open: "reachable s \<Longrightarrow> reachable (socketNotOpen clientId s)"
| r_heartbeat: "reachable s \<Longrightarrow> reachable (fst (heartbeat now s))"
| r_cleanup: "reachable s \<Longrightarrow> reachable (fst (cleanup now s))"

section \<open>The route stub (app/api/ws/route.ts)\<close>

subsection \<open>State\<close>

text \<open>
  The values of the module-level maps.  A stored connection has the fields \<open>ws\<close>,
  \<open>userId\<close>, \<open>username\<close>, \<open>roomId\<close> and \<open>joinedAt\<close>, and no \<open>id\<close>; \<open>rc_wsOpen\<close> is
  \<open>ws.readyState === WebSocket.OPEN\<close>.  Dates are their time values in milliseconds.
\<close>

record RouteConnection =
  rc_wsOpen :: bool
  rc_userId :: string
  rc_username :: string
  rc_roomId :: string
  rc_joinedAt :: int

record RouteParticipant =
  rp_id :: string
  rp_username :: string
  rp_joinedAt :: int
  rp_isOnline :: bool

record StoredMessage =
  sm_id :: string
  sm_content :: jsstring
  sm_senderId :: string
  sm_senderName :: string
  sm_timestamp :: int
  sm_type :: string
  sm_encrypted :: bool
  sm_imageUrl :: "string option"

record RouteRoom =
  rr_id :: string
  rr_name :: string
  rr_pinCode :: string
  rr_creatorId :: string
  rr_creatorUsername :: string
  rr_participants :: "RouteParticipant list"
  rr_messages :: "StoredMessage list"
  rr_createdAt :: int
  rr_expiresAt :: int
  rr_matrixRoomId :: "string option"
  rr_encrypted :: bool
  rr_isActive :: bool
  rr_maxParticipants :: nat

text \<open>
  An entry of \<open>userTyping\<close> holds the handle of its timer.  A pending \<open>setTimeout\<close> is
  kept with the time it is due and the variables its callback closes over.
\<close>

record TypingEntry =
  te_userId :: string
  te_username :: string
  te_roomId :: string
  te_timeout :: nat

record Timer =
  tm_handle :: nat
  tm_due :: int
  tm_typingKey :: string
  tm_roomId :: string
  tm_userId :: string
  tm_username :: string

record route =
  connections :: "(string \<times> RouteConnection) list"
  roomConnections :: "(string \<times> string list) list"
  userTyping :: "(string \<times> TypingEntry) list"
  rooms :: "(string \<times> RouteRoom) list"
  timers :: "Timer list"
  nextHandle :: nat

text \<open>The three error texts of \<open>handleChatMessage\<close> (Russian in the source).\<close>

datatype route_error = MessageTooLong | RoomNotFound | RoomInactive

datatype route_event =
    RError route_error
  | RMessage StoredMessage int
  | RTyping string string bool
  | RPong int

type_synonym route_outbox = "(string \<times> route_event) list"

record RoutePayload =
  pl_content :: "jsstring option"
  pl_type :: "string option"
  pl_isTyping :: "bool option"

record RouteFrame =
  rf_type :: string
  rf_payload :: "RoutePayload option"

subsection \<open>Sending\<close>

text \<open>
  \<open>connection.ws.send\<close>: nothing reaches a socket that is not open.  The handlers get
  the stored connection; the output names it by the id it is stored under.
\<close>

definition route_send :: "string \<Rightarrow> RouteConnection \<Rightarrow> route_event \<Rightarrow> route_outbox" where
  "route_send connId connection message =
     (if rc_wsOpen connection then [(connId, message)] else [])"

definition route_broadcastToRoom :: "string \<Rightarrow> route_event \<Rightarrow> string option \<Rightarrow> route \<Rightarrow> route_outbox" where
  "route_broadcastToRoom rid message excludeConnectionId s =
     (case map_of (roomConnections s) rid of
        None \<Rightarrow> []
      | Some roomConnIds \<Rightarrow>
          concat (map (\<lambda>connId.
                    if Some connId = excludeConnectionId then []
                    else (case map_of (connections s) connId of
                            None \<Rightarrow> []
                          | Some connection \<Rightarrow>
                              if rc_wsOpen connection then [(connId, message)] else []))
                  roomConnIds))"

subsection \<open>Handlers\<close>

definition route_handleChatMessage :: "int \<Rightarrow> string \<Rightarrow> string \<Rightarrow> RouteConnection \<Rightarrow> RoutePayload \<Rightarrow> route \<Rightarrow> route \<times> route_outbox" where
  "route_handleChatMessage now uuid connId connection payload s =
     (case pl_content payload of
        None \<Rightarrow> (s, [])
      | Some content \<Rightarrow>
          if content = [] \<or> length (trim content) = 0 then (s, [])
          else if length content > 1000
          then (s, route_send connId connection (RError MessageTooLong))
          else
            (case map_of (rooms s) (rc_roomId connection) of
               None \<Rightarrow> (s, route_send connId connection (RError RoomNotFound))
             | Some room \<Rightarrow>
                 if now > rr_expiresAt room \<or> \<not> rr_isActive room
                 then (s, route_send connId connection (RError RoomInactive))
                 else
                   let messageObj = \<lparr>sm_id = uuid, sm_content = trim content,
                                      sm_senderId = rc_userId connection,
                                      sm_senderName = rc_username connection,
                                      sm_timestamp = now,
                                      sm_type = (case pl_type payload of None \<Rightarrow> ''text'' | Some t \<Rightarrow> t),
                                      sm_encrypted = rr_encrypted room,
                                      sm_imageUrl = None\<rparr>;
                       pushed = rr_messages room @ [messageObj];
                       kept = (if length pushed > 1000
                               then drop (length pushed - 1000) pushed else pushed);
                       s1 = s\<lparr>rooms := AList.update (rc_roomId connection)
                                          (room\<lparr>rr_messages := kept\<rparr>) (rooms s)\<rparr>
                   in (s1, route_broadcastToRoom (rc_roomId connection)
                             (RMessage messageObj now) None s1)))"

text \<open>
  \<open>handleTyping\<close> passes \<open>connection.id\<close> as the connection to leave out; the stored
  connection has no such field, so the value is \<open>undefined\<close>: \<open>None\<close>.
\<close>

definition clearTimeout :: "nat \<Rightarrow> Timer list \<Rightarrow> Timer list" where
  "clearTimeout h ts = filter (\<lambda>t. tm_handle t \<noteq> h) ts"

definition route_handleTyping :: "int \<Rightarrow> RouteConnection \<Rightarrow> RoutePayload \<Rightarrow> route \<Rightarrow> route \<times> route_outbox" where
  "route_handleTyping now connection payload s =
     (let uid = rc_userId connection; uname = rc_username connection; rid = rc_roomId connection;
          typingKey = rid @ '':'' @ uid
      in if (case pl_isTyping payload of None \<Rightarrow> False | Some b \<Rightarrow> b)
         then
           let ts = (case map_of (userTyping s) typingKey of
                       None \<Rightarrow> timers s
                     | Some existing \<Rightarrow> clearTimeout (te_timeout existing) (timers s));
               timeout = \<lparr>tm_handle = nextHandle s, tm_due = now + 3000, tm_typingKey = typingKey,
                          tm_roomId = rid, tm_userId = uid, tm_username = uname\<rparr>;
               s1 = s\<lparr>timers := ts @ [timeout], nextHandle := Suc (nextHandle s),
                       userTyping := AList.update typingKey
                          \<lparr>te_userId = uid, te_username = uname, te_roomId = rid,
                           te_timeout = nextHandle s\<rparr> (userTyping s)\<rparr>
           in (s1, route_broadcastToRoom rid (RTyping uid uname True) None s1)
         else
           let s1 = (case map_of (userTyping s) typingKey of
                       None \<Rightarrow> s
                     | Some existing \<Rightarrow>
                         s\<lparr>timers := clearTimeout (te_timeout existing) (timers s),
                           userTyping := AList.delete typingKey (userTyping s)\<rparr>)
           in (s1, route_broadcastToRoom rid (RTyping uid uname False) None s1))"

text \<open>
  \<open>handleMessage\<close>: \<open>data = None\<close> is a frame on which \<open>JSON.parse\<close> or the
  destructuring throws; a missing \<open>payload\<close> makes the destructuring in the two
  handlers throw.  The \<open>catch\<close> only logs.
\<close>

definition route_handleMessage :: "int \<Rightarrow> string \<Rightarrow> string \<Rightarrow> RouteFrame option \<Rightarrow> route \<Rightarrow> route \<times> route_outbox" where
  "route_handleMessage now uuid connectionId data s =
     (case map_of (connections s) connectionId of
        None \<Rightarrow> (s, [])
      | Some connection \<Rightarrow>
          (case data of
             None \<Rightarrow> (s, [])
           | Some message \<Rightarrow>
               if rf_type message = ''message''
               then (case rf_payload message of
                       None \<Rightarrow> (s, [])
                     | Some payload \<Rightarrow> route_handleChatMessage now uuid connectionId connection payload s)
               else if rf_type message = ''typing''
               then (case rf_payload message of
                       None \<Rightarrow> (s, [])
                     | Some payload \<Rightarrow> route_handleTyping now connection payload s)
               else if rf_type message = ''ping''
               then (s, route_send connectionId connection (RPong now))
               else (s, [])))"

subsection \<open>Timers\<close>



section \<open>Notions used to state the properties\<close>

text \<open>
  A message reaches a connection only if it is registered and its socket is open; the
  members of a room of the route stub are the connection ids stored for it.
\<close>

definition deliverable :: "server \<Rightarrow> string \<Rightarrow> bool" where
  "deliverable s clientId =
     (case map_of (clientsMap s) clientId of None \<Rightarrow> False | Some client \<Rightarrow> wsOpen client)"

definition route_open :: "route \<Rightarrow> string \<Rightarrow> bool" where
  "route_open s connId =
     (case map_of (connections s) connId of None \<Rightarrow> False | Some connection \<Rightarrow> rc_wsOpen connection)"

definition route_members :: "route \<Rightarrow> string \<Rightarrow> string list" where
  "route_members s rid = (case map_of (roomConnections s) rid of None \<Rightarrow> [] | Some ids \<Rightarrow> ids)"

text \<open>
  The consistency of the registry and the directory of the standalone server: a room in
  the directory has at least one member and no member twice, every member is a registered
  client whose \<open>roomId\<close> is that room; a client with a \<open>roomId\<close> has a non-empty room
  id, user id and username; no key occurs twice in a map.
\<close>

definition members_bound :: "server \<Rightarrow> bool" where
  "members_bound s \<longleftrightarrow>
     (\<forall>rid room. map_of (roomsMap s) rid = Some room \<longrightarrow>
        clients room \<noteq> [] \<and> distinct (clients room) \<and>
        (\<forall>c \<in> set (clients room).
           \<exists>client. map_of (clientsMap s) c = Some client \<and> roomId client = Some rid))"

definition identified :: "server \<Rightarrow> bool" where
  "identified s \<longleftrightarrow>
     (\<forall>c client rid. map_of (clientsMap s) c = Some client \<and> roomId client = Some rid \<longrightarrow>
        rid \<noteq> [] \<and> truthy (userId client) \<and> truthy (username client))"

definition distinct_keys :: "server \<Rightarrow> bool" where
  "distinct_keys s \<longleftrightarrow> distinct (map fst (clientsMap s)) \<and> distinct (map fst (roomsMap s))"

definition consistent :: "server \<Rightarrow> bool" where
  "consistent s \<longleftrightarrow> members_bound s \<and> identified s \<and> distinct_keys s"

text \<open>The client is a member of no room of the directory.\<close>

definition in_no_room :: "server \<Rightarrow> string \<Rightarrow> bool" where
  "in_no_room s c \<longleftrightarrow> (\<forall>rid room. map_of (roomsMap s) rid = Some room \<longrightarrow> c \<notin> set (clients room))"

section \<open>Frames\<close>

text \<open>The frames used below: those of the standalone server, then the payloads of the route stub.\<close>

definition ping_frame :: WebSocketMessage where
  "ping_frame = \<lparr>msg_type = ''ping'', msg_roomId = None, msg_userId = None, msg_username = None,
     msg_id = None, data_content = None, data_type = None, data_encrypted = None, data_typing = None\<rparr>"

definition join_frame :: "string \<Rightarrow> string \<Rightarrow> string \<Rightarrow> WebSocketMessage" where
  "join_frame rid uid uname =
     \<lparr>msg_type = ''join_room'', msg_roomId = Some rid, msg_userId = Some uid,
      msg_username = Some uname, msg_id = None, data_content = None, data_type = None,
      data_encrypted = None, data_typing = None\<rparr>"

definition chat_frame :: "jsstring \<Rightarrow> WebSocketMessage" where
  "chat_frame content =
     \<lparr>msg_type = ''message'', msg_roomId = None, msg_userId = None, msg_username = None,
      msg_id = None, data_content = Some content, data_type = None, data_encrypted = None,
      data_typing = None\<rparr>"

definition typing_frame :: "bool \<Rightarrow> WebSocketMessage" where
  "typing_frame b =
     \<lparr>msg_type = ''typing'', msg_roomId = None, msg_userId = None, msg_username = None,
      msg_id = None, data_content = None, data_type = None, data_encrypted = None,
      data_typing = Some b\<rparr>"

definition route_payload :: "jsstring \<Rightarrow> RoutePayload" where
  "route_payload content = \<lparr>pl_content = Some content, pl_type = None, pl_isTyping = None\<rparr>"

definition typing_payload :: "bool \<Rightarrow> RoutePayload" where
  "typing_payload b = \<lparr>pl_content = None, pl_type = None, pl_isTyping = Some b\<rparr>"

section \<open>Bursts of typing frames\<close>



text \<open>
  The state in which the user of the connection is typing, with the indicator last
  refreshed at \<open>t\<close>: one entry in \<open>userTyping\<close> and one pending timer, with handle \<open>h\<close>.
\<close>

definition typingSince :: "route \<Rightarrow> RouteConnection \<Rightarrow> nat \<Rightarrow> int \<Rightarrow> route" where
  "typingSince s connection h t =
     s\<lparr>timers := [\<lparr>tm_handle = h, tm_due = t + 3000,
                    tm_typingKey = rc_roomId connection @ '':'' @ rc_userId connection,
                    tm_roomId = rc_roomId connection, tm_userId = rc_userId connection,
                    tm_username = rc_username connection\<rparr>],
       nextHandle := Suc h,
       userTyping := [(rc_roomId connection @ '':'' @ rc_userId connection,
                       \<lparr>te_userId = rc_userId connection, te_username = rc_username connection,
                        te_roomId = rc_roomId connection, te_timeout = h\<rparr>)]\<rparr>"

section \<open>Example states\<close>

text \<open>A client that has sent ten pings in the last eleven milliseconds.\<close>

definition busy_server :: server where
  "busy_server =
     \<lparr>clientsMap = [(''c1'', \<lparr>conn_id = ''c1'', wsOpen = True, userId = None, username = None,
                              roomId = None, lastPing = 10, isAlive = True\<rparr>)],
      roomsMap = [],
      limiter = \<lparr>attempts = [(''c1:ping'', [1, 2, 3, 4, 5, 6, 7, 8, 9, 10])],
                  maxAttempts = 10, windowMs = 60 * 1000\<rparr>\<rparr>"


text \<open>
  The route stub with two open connections in room \<open>r1\<close>, whose history is full, and the
  standalone server with two clients in room \<open>r1\<close>.
\<close>

definition route_conn1 :: RouteConnection where
  "route_conn1 = \<lparr>rc_wsOpen = True, rc_userId = ''u1'', rc_username = ''ann'', rc_roomId = ''r1'',
                   rc_joinedAt = 0\<rparr>"

definition route_conn2 :: RouteConnection where
  "route_conn2 = \<lparr>rc_wsOpen = True, rc_userId = ''u2'', rc_username = ''bob'', rc_roomId = ''r1'',
                   rc_joinedAt = 0\<rparr>"

definition old_message :: StoredMessage where
  "old_message = \<lparr>sm_id = ''m0'', sm_content = [0x6F], sm_senderId = ''u2'', sm_senderName = ''bob'',
                   sm_timestamp = 1, sm_type = ''text'', sm_encrypted = False, sm_imageUrl = None\<rparr>"

definition route_room1 :: RouteRoom where
  "route_room1 = \<lparr>rr_id = ''r1'', rr_name = ''room'', rr_pinCode = ''1234'', rr_creatorId = ''u1'',
                   rr_creatorUsername = ''ann'', rr_participants = [],
                   rr_messages = replicate 1000 old_message, rr_createdAt = 0, rr_expiresAt = 1000000,
                   rr_matrixRoomId = None, rr_encrypted = False, rr_isActive = True,
                   rr_maxParticipants = 10\<rparr>"

definition route1 :: route where
  "route1 = \<lparr>connections = [(''c1'', route_conn1), (''c2'', route_conn2)],
              roomConnections = [(''r1'', [''c1'', ''c2''])],
              userTyping = [], rooms = [(''r1'', route_room1)], timers = [], nextHandle = 0\<rparr>"

definition client_in :: "string \<Rightarrow> string \<Rightarrow> string \<Rightarrow> string \<Rightarrow> ClientConnection" where
  "client_in cid uid uname rid =
     \<lparr>conn_id = cid, wsOpen = True, userId = Some uid, username = Some uname,
      roomId = Some rid, lastPing = 0, isAlive = True\<rparr>"

definition server1 :: server where
  "server1 =
     \<lparr>clientsMap = [(''c1'', client_in ''c1'' ''u1'' ''ann'' ''r1''),
                    (''c2'', client_in ''c2'' ''u2'' ''bob'' ''r1'')],
      roomsMap = [(''r1'', \<lparr>room_id = ''r1'', clients = [''c1'', ''c2''], createdAt = 0, lastActivity = 0\<rparr>)],
      limiter = messageRateLimiter\<rparr>"

text \<open>Two clients connect and join room \<open>r1\<close>.\<close>

definition two_in_room :: server where
  "two_in_room =
     fst (handleMessage 4 ''x'' ''c2'' (Some (join_frame ''r1'' ''u2'' ''bob''))
       (fst (handleMessage 3 ''x'' ''c1'' (Some (join_frame ''r1'' ''u1'' ''ann''))
         (fst (onConnection 2 ''c2'' (fst (onConnection 1 ''c1'' initial_server)))))))"

text \<open>
  The two clients are in room \<open>r1\<close>; an hour later only \<open>c2\<close> has sent a ping, and
  nobody has sent a chat message.
\<close>

definition quiet_room :: server where
  "quiet_room = fst (handleMessage 3600000 ''x'' ''c2'' (Some ping_frame) two_in_room)"

chapter \<open>Properties\<close>

section \<open>Rate limiting\<close>

text \<open>
  C9.  In the standalone server a parsed frame is first checked against the rate limiter
  under the key made of the connection id and the frame type; when the limiter refuses,
  the only effect is the error event \<open>Rate limit exceeded\<close> to that connection (sent if
  its socket is open): the registry, the rooms and the limiter itself stay as they were.
\<close>

theorem rate_limited_frame_has_no_effect:
  assumes "map_of (clientsMap s) clientId = Some client"
    and "\<not> fst (isAllowed now (clientId @ '':'' @ msg_type message) (limiter s))"
  shows "handleMessage now uuid clientId (Some message) s =
           (s, if wsOpen client then [(clientId, Error ''Rate limit exceeded'')] else [])"
  using assms
  by (cases "isAllowed now (clientId @ '':'' @ msg_type message) (limiter s)")
     (simp add: handleMessage_def sendToClient_def)

theorem rate_limited_frame_has_no_effect_witness:
  "handleMessage 11 ''u'' ''c1'' (Some ping_frame) busy_server =
     (busy_server, [(''c1'', Error ''Rate limit exceeded'')])"
  using rate_limited_frame_has_no_effect [of busy_server "''c1''" _ 11 ping_frame "''u''"]
  by (simp add: busy_server_def ping_frame_def isAllowed_def)

section \<open>Ping\<close>



text \<open>
  The route stub keeps no liveness state: its \<open>ping\<close> case only replies with \<open>pong\<close> to
  the connection and changes nothing.
\<close>

lemma route_ping_replies_pong:
  "map_of (connections rs) connectionId = Some connection \<Longrightarrow> rf_type frame = ''ping''
   \<Longrightarrow> route_handleMessage now uuid connectionId (Some frame) rs
       = (rs, if rc_wsOpen connection then [(connectionId, RPong now)] else [])"
  by (simp add: route_handleMessage_def route_send_def)

section \<open>Who receives a broadcast\<close>

lemma concat_map_if_filter:
  "concat (map (\<lambda>x. if P x then [f x] else []) xs) = map f (filter P xs)"
  by (induction xs) simp_all

lemma route_broadcast_all:
  "route_broadcastToRoom rid message None s
     = map (\<lambda>d. (d, message)) (filter (route_open s) (route_members s rid))"
proof (cases "map_of (roomConnections s) rid")
  case None
  then show ?thesis by (simp add: route_broadcastToRoom_def route_members_def)
next
  case (Some ids)
  have "(\<lambda>connId. case map_of (connections s) connId of None \<Rightarrow> []
            | Some connection \<Rightarrow> if rc_wsOpen connection then [(connId, message)] else [])
        = (\<lambda>connId. if route_open s connId then [(connId, message)] else [])"
    by (auto simp: route_open_def fun_eq_iff split: option.splits)
  with Some show ?thesis
    by (simp add: route_broadcastToRoom_def route_members_def concat_map_if_filter)
qed

lemma route_open_rooms_update [simp]: "route_open (s\<lparr>rooms := x\<rparr>) = route_open s"
  by (simp add: route_open_def fun_eq_iff)

lemma route_members_rooms_update [simp]: "route_members (s\<lparr>rooms := x\<rparr>) = route_members s"
  by (simp add: route_members_def fun_eq_iff)

lemma sendToClient_deliverable:
  "sendToClient d message s = (if deliverable s d then [(d, message)] else [])"
  by (simp add: sendToClient_def deliverable_def split: option.splits)

lemma broadcast_recipients:
  "map_of (roomsMap s) rid = Some room \<Longrightarrow>
   broadcastToRoom rid message excl s
     = map (\<lambda>d. (d, message)) (filter (\<lambda>d. Some d \<noteq> excl \<and> deliverable s d) (clients room))"
proof -
  have "concat (map (\<lambda>clientId. if Some clientId \<noteq> excl then sendToClient clientId message s else []) xs)
        = map (\<lambda>d. (d, message)) (filter (\<lambda>d. Some d \<noteq> excl \<and> deliverable s d) xs)" for xs
    by (induction xs) (simp_all add: sendToClient_deliverable)
  then show "map_of (roomsMap s) rid = Some room \<Longrightarrow> ?thesis"
    by (simp add: broadcastToRoom_def)
qed

lemma deliverable_roomsMap_update [simp]: "deliverable (s\<lparr>roomsMap := x\<rparr>) = deliverable s"
  by (simp add: deliverable_def fun_eq_iff)

lemma deliverable_limiter_update [simp]: "deliverable (s\<lparr>limiter := x\<rparr>) = deliverable s"
  by (simp add: deliverable_def fun_eq_iff)

lemma trim_hi: "trim [0x68, 0x69] = [0x68, 0x69]"
  by (simp add: trim_def isWhiteSpace_def)

lemma trim_replicate: "\<not> isWhiteSpace c \<Longrightarrow> trim (replicate n c) = replicate n c"
  by (cases n) (simp_all add: trim_def replicate_append_same [symmetric] del: replicate_Suc  )

lemma not_ws_a: "\<not> isWhiteSpace 0x61"
  by (simp add: isWhiteSpace_def)

section \<open>The history of the route stub\<close>

text \<open>
  C10.  In the route stub an accepted chat message is appended to the list of messages of
  the room, and the list is cut to its last 1000 entries: the stored list is a suffix of
  the old list with the new message at its end, never longer than 1000, the dropped
  prefix leaves no trace in the output, and no other room changes.  So a bound of 1000
  on every stored history is kept by the handler.
\<close>

theorem history_capped_at_1000:
  fixes payload :: RoutePayload and connection :: RouteConnection and room :: RouteRoom
    and uuid :: string and content :: jsstring and now :: int
  defines "messageObj \<equiv>
             \<lparr>sm_id = uuid, sm_content = trim content, sm_senderId = rc_userId connection,
              sm_senderName = rc_username connection, sm_timestamp = now,
              sm_type = (case pl_type payload of None \<Rightarrow> ''text'' | Some t \<Rightarrow> t),
              sm_encrypted = rr_encrypted room, sm_imageUrl = None\<rparr>"
  defines "stored \<equiv> drop (length (rr_messages room @ [messageObj]) - 1000) (rr_messages room @ [messageObj])"
  assumes "pl_content payload = Some content"
    and "trim content \<noteq> []"
    and "length content \<le> 1000"
    and "map_of (rooms s) (rc_roomId connection) = Some room"
    and "now \<le> rr_expiresAt room"
    and "rr_isActive room"
  shows "route_handleChatMessage now uuid connId connection payload s
           = (s\<lparr>rooms := AList.update (rc_roomId connection) (room\<lparr>rr_messages := stored\<rparr>) (rooms s)\<rparr>,
              map (\<lambda>d. (d, RMessage messageObj now))
                  (filter (route_open s) (route_members s (rc_roomId connection))))
         \<and> length stored \<le> 1000
         \<and> length stored = min 1000 (length (rr_messages room) + 1)
         \<and> last stored = messageObj
         \<and> (\<exists>dropped. rr_messages room @ [messageObj] = dropped @ stored)
         \<and> ((\<forall>r x. map_of (rooms s) r = Some x \<longrightarrow> length (rr_messages x) \<le> 1000)
              \<longrightarrow> (\<forall>r x. map_of (rooms (fst (route_handleChatMessage now uuid connId connection payload s))) r = Some x
                      \<longrightarrow> length (rr_messages x) \<le> 1000))"
proof -
  from assms(4) have ne: "content \<noteq> []" by (auto simp: trim_def)
  have eq: "route_handleChatMessage now uuid connId connection payload s
           = (s\<lparr>rooms := AList.update (rc_roomId connection) (room\<lparr>rr_messages := stored\<rparr>) (rooms s)\<rparr>,
              map (\<lambda>d. (d, RMessage messageObj now))
                  (filter (route_open s) (route_members s (rc_roomId connection))))"
    using assms(3-) ne unfolding messageObj_def stored_def
    by (simp add: route_handleChatMessage_def Let_def route_broadcast_all)
  have len: "length stored \<le> 1000" "length stored = min 1000 (length (rr_messages room) + 1)"
    unfolding stored_def by simp_all
  have lst: "last stored = messageObj"
    unfolding stored_def by simp
  have suffix: "\<exists>dropped. rr_messages room @ [messageObj] = dropped @ stored"
    unfolding stored_def by (metis append_take_drop_id)
  have bound: "(\<forall>r x. map_of (rooms s) r = Some x \<longrightarrow> length (rr_messages x) \<le> 1000)
              \<longrightarrow> (\<forall>r x. map_of (rooms (fst (route_handleChatMessage now uuid connId connection payload s))) r = Some x
                      \<longrightarrow> length (rr_messages x) \<le> 1000)"
    using len(1) by (auto simp: eq update_conv' split: if_splits)
  from eq len lst suffix bound show ?thesis by blast
qed

theorem history_capped_at_1000_witness:
  "length (rr_messages route_room1) = 1000
   \<and> map_of (rooms (fst (route_handleChatMessage 5 ''m1'' ''c1'' route_conn1 (route_payload [0x68, 0x69]) route1))) ''r1''
       = Some (route_room1\<lparr>rr_messages := replicate 999 old_message @
                 [\<lparr>sm_id = ''m1'', sm_content = [0x68, 0x69], sm_senderId = ''u1'', sm_senderName = ''ann'',
                   sm_timestamp = 5, sm_type = ''text'', sm_encrypted = False, sm_imageUrl = None\<rparr>]\<rparr>)"
  using history_capped_at_1000 [where s = route1 and connection = route_conn1 and now = 5
      and payload = "route_payload [0x68, 0x69]" and content = "[0x68, 0x69]" and room = route_room1
      and uuid = "''m1''" and connId = "''c1''"]
  by (simp add: route1_def route_conn1_def route_payload_def route_room1_def trim_hi) 

section \<open>Validation of chat messages\<close>

text \<open>
  C2, as stated, fails: in the route stub whitespace-only content is dropped without any
  reply to the sender.
\<close>

theorem whitespace_only_gets_no_error_reply:
  "route_handleChatMessage 5 ''m1'' ''c1'' route_conn1 (route_payload [0x20, 0x20]) route1 = (route1, [])"
  by (simp add: route_handleChatMessage_def route_payload_def trim_def isWhiteSpace_def)

text \<open>
  C2, amended.  In the route stub, for a connection whose room exists, is active and has
  not expired: content whose trim is not empty and whose untrimmed length is at most 1000
  is accepted and its trim is broadcast to every open connection of the room; content
  whose trim is not empty and whose length exceeds 1000 is answered with an error to the
  sender only and changes nothing; empty or whitespace-only content is dropped with no
  reply at all.  The standalone server checks neither length nor whitespace: it relays
  every non-empty content to every member with an open socket and drops empty content
  without a reply.
\<close>

theorem message_validation:
  fixes payload :: RoutePayload and connection :: RouteConnection and rroom :: RouteRoom
    and uuid :: string and content :: jsstring and now :: int and client :: ClientConnection
    and message :: WebSocketMessage and rid :: string
  defines "messageObj \<equiv>
             \<lparr>sm_id = uuid, sm_content = trim content, sm_senderId = rc_userId connection,
              sm_senderName = rc_username connection, sm_timestamp = now,
              sm_type = (case pl_type payload of None \<Rightarrow> ''text'' | Some t \<Rightarrow> t),
              sm_encrypted = rr_encrypted rroom, sm_imageUrl = None\<rparr>"
  defines "chatMessage \<equiv>
             ChatMessage rid (userId client) (username client)
               \<lparr>cd_id = (case msg_id message of None \<Rightarrow> uuid | Some i \<Rightarrow> if i = [] then uuid else i),
                cd_content = content, cd_senderId = userId client, cd_senderName = username client,
                cd_type = (case data_type message of None \<Rightarrow> ''text'' | Some t \<Rightarrow> if t = [] then ''text'' else t),
                cd_encrypted = (case data_encrypted message of None \<Rightarrow> False | Some e \<Rightarrow> e)\<rparr> now"
  assumes "pl_content payload = Some content"
    and "map_of (rooms rs) (rc_roomId connection) = Some rroom"
    and "now \<le> rr_expiresAt rroom"
    and "rr_isActive rroom"
    and "map_of (clientsMap s) clientId = Some client"
    and "roomId client = Some rid"
    and "rid \<noteq> []"
    and "map_of (roomsMap s) rid = Some room"
    and "data_content message = Some content"
  shows "(trim content \<noteq> [] \<and> length content \<le> 1000 \<longrightarrow>
            snd (route_handleChatMessage now uuid connId connection payload rs)
              = map (\<lambda>d. (d, RMessage messageObj now))
                    (filter (route_open rs) (route_members rs (rc_roomId connection))))
       \<and> (trim content \<noteq> [] \<and> length content > 1000 \<longrightarrow>
            route_handleChatMessage now uuid connId connection payload rs
              = (rs, if rc_wsOpen connection then [(connId, RError MessageTooLong)] else []))
       \<and> (trim content = [] \<longrightarrow>
            route_handleChatMessage now uuid connId connection payload rs = (rs, []))
       \<and> (content \<noteq> [] \<longrightarrow>
            snd (handleChatMessage now uuid clientId message s)
              = map (\<lambda>d. (d, chatMessage)) (filter (deliverable s) (clients room)))
       \<and> (content = [] \<longrightarrow> handleChatMessage now uuid clientId message s = (s, []))"
proof -
  have ne: "trim content \<noteq> [] \<Longrightarrow> content \<noteq> []" by (auto simp: trim_def)
  have a: "trim content \<noteq> [] \<and> length content \<le> 1000 \<longrightarrow>
            snd (route_handleChatMessage now uuid connId connection payload rs)
              = map (\<lambda>d. (d, RMessage messageObj now))
                    (filter (route_open rs) (route_members rs (rc_roomId connection)))"
    using assms(3-6) ne unfolding messageObj_def
    by (simp add: route_handleChatMessage_def Let_def route_broadcast_all)
  have b: "trim content \<noteq> [] \<and> length content > 1000 \<longrightarrow>
            route_handleChatMessage now uuid connId connection payload rs
              = (rs, if rc_wsOpen connection then [(connId, RError MessageTooLong)] else [])"
    using assms(3) ne by (simp add: route_handleChatMessage_def route_send_def)
  have c: "trim content = [] \<longrightarrow>
            route_handleChatMessage now uuid connId connection payload rs = (rs, [])"
    using assms(3) by (simp add: route_handleChatMessage_def)
  have d: "content \<noteq> [] \<longrightarrow>
            snd (handleChatMessage now uuid clientId message s)
              = map (\<lambda>d. (d, chatMessage)) (filter (deliverable s) (clients room))"
    using assms(7-) unfolding chatMessage_def
    by (simp add: handleChatMessage_def Let_def broadcast_recipients update_conv')
  have e: "content = [] \<longrightarrow> handleChatMessage now uuid clientId message s = (s, [])"
    using assms(7-) by (simp add: handleChatMessage_def)
  from a b c d e show ?thesis by blast
qed

theorem message_validation_witness:
  "map fst (snd (route_handleChatMessage 5 ''m1'' ''c1'' route_conn1 (route_payload (replicate 1000 0x61)) route1))
     = [''c1'', ''c2'']
   \<and> route_handleChatMessage 5 ''m1'' ''c1'' route_conn1 (route_payload (replicate 1001 0x61)) route1
     = (route1, [(''c1'', RError MessageTooLong)])
   \<and> map fst (snd (handleChatMessage 5 ''m1'' ''c1'' (chat_frame (replicate 1001 0x61)) server1))
     = [''c1'', ''c2'']"
  using message_validation [where rs = route1 and connection = route_conn1 and now = 5
      and payload = "route_payload (replicate 1000 0x61)" and content = "replicate 1000 0x61"
      and rroom = route_room1 and uuid = "''m1''" and connId = "''c1''" and s = server1
      and clientId = "''c1''" and client = "client_in ''c1'' ''u1'' ''ann'' ''r1''" and rid = "''r1''"
      and message = "chat_frame (replicate 1000 0x61)"
      and room = "\<lparr>room_id = ''r1'', clients = [''c1'', ''c2''], createdAt = 0, lastActivity = 0\<rparr>"]
    message_validation [where rs = route1 and connection = route_conn1 and now = 5
      and payload = "route_payload (replicate 1001 0x61)" and content = "replicate 1001 0x61"
      and rroom = route_room1 and uuid = "''m1''" and connId = "''c1''" and s = server1
      and clientId = "''c1''" and client = "client_in ''c1'' ''u1'' ''ann'' ''r1''" and rid = "''r1''"
      and message = "chat_frame (replicate 1001 0x61)"
      and room = "\<lparr>room_id = ''r1'', clients = [''c1'', ''c2''], createdAt = 0, lastActivity = 0\<rparr>"]
  by (simp add: route1_def route_conn1_def route_conn2_def route_payload_def route_room1_def
        trim_replicate not_ws_a route_open_def route_members_def server1_def client_in_def
        chat_frame_def deliverable_def)

section \<open>Malformed frames\<close>

text \<open>
  C7, as stated, fails: the route stub only logs a frame that does not parse and sends
  nothing to the connection it came from.
\<close>

theorem unparsable_frame_gets_no_reply_in_route_stub:
  "route_handleMessage 5 ''m1'' ''c1'' None route1 = (route1, [])"
  by (simp add: route_handleMessage_def route1_def)

text \<open>
  C7, amended.  In the standalone server a frame that does not parse is answered with the
  error event \<open>Invalid message format\<close>, to the originating connection only (if its
  socket is open), and the state is unchanged: the connection stays registered and in
  its room, and no other connection or room changes.  The route stub sends nothing and
  changes nothing.  A frame that parses but has an unknown type gets no reply in either
  implementation; the standalone server only records its attempt in the rate limiter.
\<close>

theorem malformed_frame_answered_to_sender_only:
  assumes "map_of (clientsMap s) clientId = Some client"
    and "map_of (connections rs) connectionId = Some connection"
  shows "handleMessage now uuid clientId None s
           = (s, if wsOpen client then [(clientId, Error ''Invalid message format'')] else [])
       \<and> route_handleMessage now uuid connectionId None rs = (rs, [])
       \<and> (msg_type message \<notin> {''join_room'', ''message'', ''typing'', ''ping''}
            \<and> isAllowed now (clientId @ '':'' @ msg_type message) (limiter s) = (True, rl)
          \<longrightarrow> handleMessage now uuid clientId (Some message) s = (s\<lparr>limiter := rl\<rparr>, []))
       \<and> (rf_type frame \<notin> {''message'', ''typing'', ''ping''}
          \<longrightarrow> route_handleMessage now uuid connectionId (Some frame) rs = (rs, []))"
  using assms
  by (simp add: handleMessage_def route_handleMessage_def sendToClient_def)

theorem malformed_frame_answered_to_sender_only_witness:
  "handleMessage 5 ''m1'' ''c1'' None server1 = (server1, [(''c1'', Error ''Invalid message format'')])
   \<and> route_handleMessage 5 ''m1'' ''c1'' None route1 = (route1, [])"
  using malformed_frame_answered_to_sender_only [where s = server1 and clientId = "''c1''"
      and rs = route1 and connectionId = "''c1''" and now = 5 and uuid = "''m1''"
      and message = ping_frame and frame = "\<lparr>rf_type = ''ping'', rf_payload = None\<rparr>"]
  by (simp add: server1_def route1_def client_in_def)

section \<open>Broadcast completeness\<close>

text \<open>
  C1, as stated, fails: in the route stub the sender of \<open>typing{isTyping:false}\<close> is among
  the recipients of the broadcast.
\<close>

theorem typing_stop_reaches_sender_in_route_stub:
  "map fst (snd (route_handleTyping 5 route_conn1 (typing_payload False) route1)) = [''c1'', ''c2'']"
  by (simp add: route_handleTyping_def typing_payload_def route1_def route_conn1_def
        route_conn2_def route_broadcastToRoom_def Let_def)

lemma route_broadcast_typing_state [simp]:
  "route_broadcastToRoom rid message excl (s\<lparr>timers := t, userTyping := u\<rparr>)
     = route_broadcastToRoom rid message excl s"
  "route_broadcastToRoom rid message excl (s\<lparr>timers := t, nextHandle := n, userTyping := u\<rparr>)
     = route_broadcastToRoom rid message excl s"
  "route_broadcastToRoom rid message excl (s\<lparr>userTyping := u\<rparr>)
     = route_broadcastToRoom rid message excl s"
  "route_broadcastToRoom rid message excl (s\<lparr>timers := t\<rparr>)
     = route_broadcastToRoom rid message excl s"
  by (simp_all add: route_broadcastToRoom_def cong: if_cong option.case_cong)

lemma route_typing_stop_recipients:
  "pl_isTyping payload \<noteq> Some True \<Longrightarrow>
   snd (route_handleTyping now connection payload rs)
     = map (\<lambda>d. (d, RTyping (rc_userId connection) (rc_username connection) False))
           (filter (route_open rs) (route_members rs (rc_roomId connection)))"
  by (cases "pl_isTyping payload")
     (auto simp: route_handleTyping_def Let_def route_broadcast_all [symmetric] split: option.splits)

text \<open>
  C1, amended.  In both implementations an accepted chat message is sent to every member
  of the sender's room whose socket is open, the sender included: to all N members when
  all sockets are open.  In the standalone server a typing frame is sent to every member
  with an open socket except the sender: to the other N - 1 members when all sockets are
  open.  In the route stub a \<open>typing{isTyping:false}\<close> frame is sent to every open
  connection of the room, the sender included.
\<close>

theorem broadcast_completeness:
  fixes payload :: RoutePayload and connection :: RouteConnection and rroom :: RouteRoom
    and uuid :: string and content :: jsstring and now :: int and client :: ClientConnection
    and message :: WebSocketMessage and typingMessage :: WebSocketMessage and rid :: string
  defines "messageObj \<equiv>
             \<lparr>sm_id = uuid, sm_content = trim content, sm_senderId = rc_userId connection,
              sm_senderName = rc_username connection, sm_timestamp = now,
              sm_type = (case pl_type payload of None \<Rightarrow> ''text'' | Some t \<Rightarrow> t),
              sm_encrypted = rr_encrypted rroom, sm_imageUrl = None\<rparr>"
  defines "chatMessage \<equiv>
             ChatMessage rid (userId client) (username client)
               \<lparr>cd_id = (case msg_id message of None \<Rightarrow> uuid | Some i \<Rightarrow> if i = [] then uuid else i),
                cd_content = content, cd_senderId = userId client, cd_senderName = username client,
                cd_type = (case data_type message of None \<Rightarrow> ''text'' | Some t \<Rightarrow> if t = [] then ''text'' else t),
                cd_encrypted = (case data_encrypted message of None \<Rightarrow> False | Some e \<Rightarrow> e)\<rparr> now"
  defines "typing \<equiv>
             Typing rid (userId client) (username client)
               (case data_typing typingMessage of None \<Rightarrow> False | Some t \<Rightarrow> t) now"
  assumes "map_of (clientsMap s) clientId = Some client"
    and "roomId client = Some rid"
    and "rid \<noteq> []"
    and "map_of (roomsMap s) rid = Some room"
    and "clientId \<in> set (clients room)"
    and "distinct (clients room)"
    and "data_content message = Some content"
    and "content \<noteq> []"
    and "pl_content payload = Some content"
    and "trim content \<noteq> []"
    and "length content \<le> 1000"
    and "map_of (rooms rs) (rc_roomId connection) = Some rroom"
    and "now \<le> rr_expiresAt rroom"
    and "rr_isActive rroom"
  shows "snd (handleChatMessage now uuid clientId message s)
           = map (\<lambda>d. (d, chatMessage)) (filter (deliverable s) (clients room))
       \<and> handleTyping now clientId typingMessage s
           = (s, map (\<lambda>d. (d, typing)) (filter (\<lambda>d. d \<noteq> clientId \<and> deliverable s d) (clients room)))
       \<and> ((\<forall>d \<in> set (clients room). deliverable s d) \<longrightarrow>
              map fst (snd (handleChatMessage now uuid clientId message s)) = clients room
            \<and> map fst (snd (handleTyping now clientId typingMessage s)) = removeAll clientId (clients room)
            \<and> length (snd (handleTyping now clientId typingMessage s)) = length (clients room) - 1)
       \<and> snd (route_handleChatMessage now uuid connId connection payload rs)
           = map (\<lambda>d. (d, RMessage messageObj now))
                 (filter (route_open rs) (route_members rs (rc_roomId connection)))
       \<and> snd (route_handleTyping now connection (payload\<lparr>pl_isTyping := Some False\<rparr>) rs)
           = map (\<lambda>d. (d, RTyping (rc_userId connection) (rc_username connection) False))
                 (filter (route_open rs) (route_members rs (rc_roomId connection)))"
proof -
  have m: "snd (handleChatMessage now uuid clientId message s)
           = map (\<lambda>d. (d, chatMessage)) (filter (deliverable s) (clients room))"
    using assms(4-7,10,11) unfolding chatMessage_def
    by (simp add: handleChatMessage_def Let_def broadcast_recipients update_conv')
  have t: "handleTyping now clientId typingMessage s
           = (s, map (\<lambda>d. (d, typing)) (filter (\<lambda>d. d \<noteq> clientId \<and> deliverable s d) (clients room)))"
    using assms(4-7) unfolding typing_def
    by (simp add: handleTyping_def broadcast_recipients)
  have n: "(\<forall>d \<in> set (clients room). deliverable s d) \<longrightarrow>
              map fst (snd (handleChatMessage now uuid clientId message s)) = clients room
            \<and> map fst (snd (handleTyping now clientId typingMessage s)) = removeAll clientId (clients room)
            \<and> length (snd (handleTyping now clientId typingMessage s)) = length (clients room) - 1"
  proof
    assume all: "\<forall>d \<in> set (clients room). deliverable s d"
    then have f1: "filter (deliverable s) (clients room) = clients room"
      by simp
    have f2: "filter (\<lambda>d. d \<noteq> clientId \<and> deliverable s d) (clients room) = removeAll clientId (clients room)"
      using all by (induction "clients room") (auto simp: removeAll_filter_not_eq intro: filter_cong)
    have "length (removeAll clientId (clients room)) = length (clients room) - 1"
      using assms(8,9) by (simp add: distinct_remove1_removeAll [symmetric] length_remove1)
    with f1 f2 show "map fst (snd (handleChatMessage now uuid clientId message s)) = clients room
            \<and> map fst (snd (handleTyping now clientId typingMessage s)) = removeAll clientId (clients room)
            \<and> length (snd (handleTyping now clientId typingMessage s)) = length (clients room) - 1"
      by (simp add: m t comp_def)
  qed
  have ne: "content \<noteq> []" by fact
  have rm: "snd (route_handleChatMessage now uuid connId connection payload rs)
           = map (\<lambda>d. (d, RMessage messageObj now))
                 (filter (route_open rs) (route_members rs (rc_roomId connection)))"
    using assms(11-) unfolding messageObj_def
    by (simp add: route_handleChatMessage_def Let_def route_broadcast_all)
  have rt: "snd (route_handleTyping now connection (payload\<lparr>pl_isTyping := Some False\<rparr>) rs)
           = map (\<lambda>d. (d, RTyping (rc_userId connection) (rc_username connection) False))
                 (filter (route_open rs) (route_members rs (rc_roomId connection)))"
    by (rule route_typing_stop_recipients) simp
  from m t n rm rt show ?thesis by blast
qed

theorem broadcast_completeness_witness:
  "map fst (snd (handleChatMessage 5 ''m1'' ''c1'' (chat_frame [0x68, 0x69]) server1)) = [''c1'', ''c2'']
   \<and> map fst (snd (handleTyping 5 ''c1'' (typing_frame True) server1)) = [''c2'']
   \<and> map fst (snd (route_handleChatMessage 5 ''m1'' ''c1'' route_conn1 (route_payload [0x68, 0x69]) route1))
       = [''c1'', ''c2'']
   \<and> map fst (snd (route_handleTyping 5 route_conn1 ((route_payload [0x68, 0x69])\<lparr>pl_isTyping := Some False\<rparr>) route1))
       = [''c1'', ''c2'']"
  using broadcast_completeness [where rs = route1 and connection = route_conn1 and now = 5
      and payload = "route_payload [0x68, 0x69]" and content = "[0x68, 0x69]"
      and rroom = route_room1 and uuid = "''m1''" and connId = "''c1''" and s = server1
      and clientId = "''c1''" and client = "client_in ''c1'' ''u1'' ''ann'' ''r1''" and rid = "''r1''"
      and message = "chat_frame [0x68, 0x69]" and typingMessage = "typing_frame True"
      and room = "\<lparr>room_id = ''r1'', clients = [''c1'', ''c2''], createdAt = 0, lastActivity = 0\<rparr>"]
  by (simp add: route1_def route_conn1_def route_conn2_def route_payload_def route_room1_def
        trim_hi route_open_def route_members_def server1_def client_in_def
        chat_frame_def typing_frame_def deliverable_def)

section \<open>Typing indicators\<close>


lemma route_broadcast_typingSince [simp]:
  "route_broadcastToRoom rid message excl (typingSince s connection h t)
     = route_broadcastToRoom rid message excl s"
  by (simp add: typingSince_def route_broadcastToRoom_def cong: if_cong option.case_cong)

lemma route_broadcast_nextHandle [simp]:
  "route_broadcastToRoom rid message excl (s\<lparr>nextHandle := n\<rparr>)
     = route_broadcastToRoom rid message excl s"
  by (simp add: route_broadcastToRoom_def cong: if_cong option.case_cong)










section \<open>Consistency of the standalone server\<close>

lemma leaveRoom_noop:
  "map_of (clientsMap s) c = None \<or> map_of (roomsMap s) rid = None \<Longrightarrow> leaveRoom now c rid s = (s, [])"
  by (auto simp: leaveRoom_def split: option.splits)

lemma leaveRoom_clients:
  assumes "map_of (clientsMap s) c = Some client" and "map_of (roomsMap s) rid = Some room"
  shows "clientsMap (fst (leaveRoom now c rid s)) = AList.update c (client\<lparr>roomId := None\<rparr>) (clientsMap s)"
  using assms by (simp add: leaveRoom_def Let_def)

lemma leaveRoom_rooms:
  assumes "map_of (clientsMap s) c = Some client" and "map_of (roomsMap s) rid = Some room"
  shows "roomsMap (fst (leaveRoom now c rid s))
           = (if removeAll c (clients room) = []
              then AList.delete rid (AList.update rid (room\<lparr>clients := removeAll c (clients room)\<rparr>) (roomsMap s))
              else AList.update rid (room\<lparr>clients := removeAll c (clients room)\<rparr>) (roomsMap s))"
  using assms by (simp add: leaveRoom_def Let_def)

lemma leaveRoom_limiter: "limiter (fst (leaveRoom now c rid s)) = limiter s"
  by (simp add: leaveRoom_def Let_def split: option.splits)

lemma leaveRoom_rooms_map:
  assumes "map_of (clientsMap s) c = Some client" and "map_of (roomsMap s) rid = Some room"
  shows "map_of (roomsMap (fst (leaveRoom now c rid s)))
           = (if removeAll c (clients room) = [] then (map_of (roomsMap s))(rid := None)
              else (map_of (roomsMap s))(rid \<mapsto> room\<lparr>clients := removeAll c (clients room)\<rparr>))"
  by (simp add: leaveRoom_rooms [OF assms] update_conv' delete_conv')

lemma leaveRoom_clients_map:
  assumes "map_of (clientsMap s) c = Some client" and "map_of (roomsMap s) rid = Some room"
  shows "map_of (clientsMap (fst (leaveRoom now c rid s)))
           = (map_of (clientsMap s))(c \<mapsto> client\<lparr>roomId := None\<rparr>)"
  by (simp add: leaveRoom_clients [OF assms] update_conv')

lemma leaveRoom_distinct_keys:
  "distinct_keys s \<Longrightarrow> distinct_keys (fst (leaveRoom now c rid s))"
proof (cases "map_of (clientsMap s) c = None \<or> map_of (roomsMap s) rid = None")
  case True
  assume "distinct_keys s"
  with True show ?thesis by (simp add: leaveRoom_noop)
next
  case False
  assume d: "distinct_keys s"
  from False obtain client room where
    h: "map_of (clientsMap s) c = Some client" "map_of (roomsMap s) rid = Some room" by auto
  show ?thesis
    using d by (simp add: distinct_keys_def leaveRoom_clients [OF h] leaveRoom_rooms [OF h]
        distinct_update distinct_delete)
qed

lemma member_room_unique:
  assumes "members_bound s" and "map_of (clientsMap s) c = Some client" and "roomId client = Some rid"
    and "map_of (roomsMap s) r = Some room" and "c \<in> set (clients room)"
  shows "r = rid"
  using assms unfolding members_bound_def by fastforce

lemma members_boundD:
  assumes "members_bound s" and "map_of (roomsMap s) r = Some room"
  shows "clients room \<noteq> []" and "distinct (clients room)"
    and "d \<in> set (clients room) \<Longrightarrow> \<exists>client. map_of (clientsMap s) d = Some client \<and> roomId client = Some r"
  using assms unfolding members_bound_def by blast+

lemma leaveRoom_consistent:
  assumes "consistent s" and "map_of (clientsMap s) c = Some client" and "roomId client = Some rid"
  shows "consistent (fst (leaveRoom now c rid s)) \<and> in_no_room (fst (leaveRoom now c rid s)) c"
proof (cases "map_of (roomsMap s) rid")
  case None
  have "in_no_room s c"
    using assms None by (fastforce simp: in_no_room_def consistent_def members_bound_def)
  with assms(1) None show ?thesis by (simp add: leaveRoom_noop)
next
  case (Some room)
  let ?s' = "fst (leaveRoom now c rid s)"
  from assms(1) have mb0: "members_bound s" and id0: "identified s" and dk0: "distinct_keys s"
    by (simp_all add: consistent_def)
  note cm = leaveRoom_clients_map [OF assms(2) Some, of now]
  note rm = leaveRoom_rooms_map [OF assms(2) Some, of now]
  have mb: "members_bound ?s'"
    unfolding members_bound_def
  proof (intro allI impI)
    fix r room'
    assume r: "map_of (roomsMap ?s') r = Some room'"
    show "clients room' \<noteq> [] \<and> distinct (clients room') \<and>
          (\<forall>d\<in>set (clients room'). \<exists>cl. map_of (clientsMap ?s') d = Some cl \<and> roomId cl = Some r)"
    proof (cases "r = rid")
      case True
      with r have ne: "removeAll c (clients room) \<noteq> []"
        and room': "room' = room\<lparr>clients := removeAll c (clients room)\<rparr>"
        by (auto simp: rm split: if_splits)
      from members_boundD [OF mb0 Some] True show ?thesis
        by (auto simp: room' ne cm distinct_removeAll)
    next
      case False
      with r have old: "map_of (roomsMap s) r = Some room'"
        by (auto simp: rm split: if_splits)
      have "c \<notin> set (clients room')"
        using member_room_unique [OF mb0 assms(2,3) old] False by blast
      with members_boundD [OF mb0 old] show ?thesis
        by (auto simp: cm)
    qed
  qed
  have idn: "identified ?s'"
    using id0 unfolding identified_def cm by (auto split: if_splits)
  have nr: "in_no_room ?s' c"
    unfolding in_no_room_def
  proof (intro allI impI)
    fix r room'
    assume r: "map_of (roomsMap ?s') r = Some room'"
    show "c \<notin> set (clients room')"
    proof (cases "r = rid")
      case True
      with r have "room' = room\<lparr>clients := removeAll c (clients room)\<rparr>"
        by (auto simp: rm split: if_splits)
      then show ?thesis by simp
    next
      case False
      with r have old: "map_of (roomsMap s) r = Some room'"
        by (auto simp: rm split: if_splits)
      show ?thesis
        using member_room_unique [OF mb0 assms(2,3) old] False by blast
    qed
  qed
  from mb idn nr leaveRoom_distinct_keys [OF dk0] show ?thesis
    by (simp add: consistent_def)
qed

lemma registered_in_no_room:
  assumes "consistent s" and "map_of (clientsMap s) c = Some client" and "roomId client = None"
  shows "in_no_room s c"
  using assms unfolding consistent_def members_bound_def in_no_room_def by fastforce

lemma unregistered_in_no_room:
  assumes "consistent s" and "map_of (clientsMap s) c = None"
  shows "in_no_room s c"
  using assms unfolding consistent_def members_bound_def in_no_room_def by fastforce

lemma enterRoom_clients_map:
  assumes "map_of (clientsMap s) c = Some client"
  shows "map_of (clientsMap (fst (enterRoom now c rid uid uname s)))
           = (map_of (clientsMap s))
               (c \<mapsto> client\<lparr>userId := Some uid, username := Some uname, roomId := Some rid\<rparr>)"
  using assms by (simp add: enterRoom_def Let_def update_conv')

lemma enterRoom_rooms_map:
  assumes "map_of (clientsMap s) c = Some client" and "in_no_room s c"
  shows "map_of (roomsMap (fst (enterRoom now c rid uid uname s)))
           = (map_of (roomsMap s))
               (rid \<mapsto> (case map_of (roomsMap s) rid of
                            None \<Rightarrow> \<lparr>room_id = rid, clients = [c], createdAt = now, lastActivity = now\<rparr>
                          | Some room \<Rightarrow> room\<lparr>clients := clients room @ [c], lastActivity := now\<rparr>))"
  using assms
  by (auto simp: enterRoom_def Let_def update_conv' in_no_room_def split: option.splits)

lemma enterRoom_distinct_keys:
  "distinct_keys s \<Longrightarrow> distinct_keys (fst (enterRoom now c rid uid uname s))"
  by (auto simp: enterRoom_def Let_def distinct_keys_def distinct_update split: option.splits)

lemma enterRoom_consistent:
  assumes "consistent s" and "map_of (clientsMap s) c = Some client" and "in_no_room s c"
    and "rid \<noteq> []" and "uid \<noteq> []" and "uname \<noteq> []"
  shows "consistent (fst (enterRoom now c rid uid uname s))"
proof -
  let ?s' = "fst (enterRoom now c rid uid uname s)"
  from assms(1) have mb0: "members_bound s" and id0: "identified s" and dk0: "distinct_keys s"
    by (simp_all add: consistent_def)
  note cm = enterRoom_clients_map [OF assms(2), of now rid uid uname]
  note rm = enterRoom_rooms_map [OF assms(2,3), of now rid uid uname]
  have mb: "members_bound ?s'"
    unfolding members_bound_def
  proof (intro allI impI)
    fix r room'
    assume r: "map_of (roomsMap ?s') r = Some room'"
    show "clients room' \<noteq> [] \<and> distinct (clients room') \<and>
          (\<forall>d\<in>set (clients room'). \<exists>cl. map_of (clientsMap ?s') d = Some cl \<and> roomId cl = Some r)"
    proof (cases "r = rid")
      case True
      show ?thesis
      proof (cases "map_of (roomsMap s) rid")
        case None
        with r True have "room' = \<lparr>room_id = rid, clients = [c], createdAt = now, lastActivity = now\<rparr>"
          by (simp add: rm)
        then show ?thesis using True by (simp add: cm)
      next
        case (Some room)
        with r True have room': "room' = room\<lparr>clients := clients room @ [c], lastActivity := now\<rparr>"
          by (simp add: rm)
        from assms(3) Some have "c \<notin> set (clients room)"
          by (simp add: in_no_room_def)
        with members_boundD [OF mb0 Some] True show ?thesis
          by (auto simp: room' cm)
      qed
    next
      case False
      with r have old: "map_of (roomsMap s) r = Some room'"
        by (simp add: rm)
      from assms(3) old have "c \<notin> set (clients room')"
        by (simp add: in_no_room_def)
      with members_boundD [OF mb0 old] show ?thesis
        by (auto simp: cm)
    qed
  qed
  have idn: "identified ?s'"
    using id0 assms(4-6) unfolding identified_def cm by (auto simp: truthy_def split: if_splits)
  from mb idn enterRoom_distinct_keys [OF dk0] show ?thesis
    by (simp add: consistent_def)
qed

lemma leaveRoom_registered:
  "map_of (clientsMap s) c = Some client \<Longrightarrow>
   \<exists>client'. map_of (clientsMap (fst (leaveRoom now c rid s))) c = Some client'"
  by (cases "map_of (roomsMap s) rid") (simp_all add: leaveRoom_noop leaveRoom_clients_map)

lemma handleJoinRoom_consistent:
  assumes "consistent s"
  shows "consistent (fst (handleJoinRoom now c message s))"
proof (cases "map_of (clientsMap s) c")
  case None
  with assms show ?thesis by (simp add: handleJoinRoom_def)
next
  case (Some client)
  show ?thesis
  proof (cases "\<exists>rid uid uname. msg_roomId message = Some rid \<and> msg_userId message = Some uid
                  \<and> msg_username message = Some uname \<and> rid \<noteq> [] \<and> uid \<noteq> [] \<and> uname \<noteq> []")
    case False
    with assms Some show ?thesis
      by (auto simp: handleJoinRoom_def split: option.splits)
  next
    case True
    then obtain rid uid uname where
      m: "msg_roomId message = Some rid" "msg_userId message = Some uid"
         "msg_username message = Some uname" "rid \<noteq> []" "uid \<noteq> []" "uname \<noteq> []"
      by blast
    define s1 where "s1 = (case roomId client of None \<Rightarrow> s
                          | Some cur \<Rightarrow> if cur = [] then s else fst (leaveRoom now c cur s))"
    have eq: "fst (handleJoinRoom now c message s) = fst (enterRoom now c rid uid uname s1)"
      using Some m
      by (auto simp: handleJoinRoom_def s1_def split: option.splits prod.splits)
    have s1: "consistent s1 \<and> in_no_room s1 c \<and> (\<exists>client'. map_of (clientsMap s1) c = Some client')"
    proof (cases "roomId client")
      case None
      with assms Some show ?thesis
        by (simp add: s1_def registered_in_no_room)
    next
      case cur: (Some cur)
      from assms Some cur have "cur \<noteq> []"
        by (auto simp: consistent_def identified_def)
      with cur leaveRoom_consistent [OF assms Some cur, of now] leaveRoom_registered [OF Some, of now cur]
      show ?thesis by (simp add: s1_def)
    qed
    then obtain client' where "map_of (clientsMap s1) c = Some client'" by blast
    with s1 m enterRoom_consistent show ?thesis
      unfolding eq by blast
  qed
qed

lemma consistent_limiter [simp]: "consistent (s\<lparr>limiter := x\<rparr>) = consistent s"
  by (simp add: consistent_def members_bound_def identified_def distinct_keys_def)

lemma consistent_update_client:
  assumes "consistent s" and "map_of (clientsMap s) c = Some client"
    and "roomId client' = roomId client" and "userId client' = userId client"
    and "username client' = username client"
  shows "consistent (s\<lparr>clientsMap := AList.update c client' (clientsMap s)\<rparr>)"
proof -
  from assms(1) have mb0: "members_bound s" and id0: "identified s" and dk0: "distinct_keys s"
    by (simp_all add: consistent_def)
  have "members_bound (s\<lparr>clientsMap := AList.update c client' (clientsMap s)\<rparr>)"
    using mb0 assms(2,3) unfolding members_bound_def by (fastforce simp: update_conv')
  moreover have "identified (s\<lparr>clientsMap := AList.update c client' (clientsMap s)\<rparr>)"
    using id0 assms(2-) unfolding identified_def by (auto simp: update_conv' split: if_splits)
  moreover have "distinct_keys (s\<lparr>clientsMap := AList.update c client' (clientsMap s)\<rparr>)"
    using dk0 by (simp add: distinct_keys_def distinct_update)
  ultimately show ?thesis by (simp add: consistent_def)
qed

lemma consistent_touch_room:
  assumes "consistent s" and "map_of (roomsMap s) rid = Some room"
  shows "consistent (s\<lparr>roomsMap := AList.update rid (room\<lparr>lastActivity := now\<rparr>) (roomsMap s)\<rparr>)"
proof -
  from assms(1) have mb0: "members_bound s" and id0: "identified s" and dk0: "distinct_keys s"
    by (simp_all add: consistent_def)
  have "members_bound (s\<lparr>roomsMap := AList.update rid (room\<lparr>lastActivity := now\<rparr>) (roomsMap s)\<rparr>)"
    using mb0 assms(2) unfolding members_bound_def by (auto simp: update_conv' split: if_splits)
  moreover have "identified (s\<lparr>roomsMap := AList.update rid (room\<lparr>lastActivity := now\<rparr>) (roomsMap s)\<rparr>)"
    using id0 unfolding identified_def by auto
  moreover have "distinct_keys (s\<lparr>roomsMap := AList.update rid (room\<lparr>lastActivity := now\<rparr>) (roomsMap s)\<rparr>)"
    using dk0 by (simp add: distinct_keys_def distinct_update)
  ultimately show ?thesis by (simp add: consistent_def)
qed

lemma handleChatMessage_consistent:
  "consistent s \<Longrightarrow> consistent (fst (handleChatMessage now uuid c message s))"
  by (auto simp: handleChatMessage_def Let_def consistent_touch_room split: option.splits)

lemma handleTyping_state: "fst (handleTyping now c message s) = s"
  by (simp add: handleTyping_def split: option.splits)

lemma handlePing_consistent:
  "consistent s \<Longrightarrow> consistent (fst (handlePing now c s))"
  by (auto simp: handlePing_def Let_def consistent_update_client split: option.splits)

lemma consistent_delete_client:
  assumes "consistent s" and "in_no_room s c"
  shows "consistent (s\<lparr>clientsMap := AList.delete c (clientsMap s)\<rparr>)"
proof -
  from assms(1) have mb0: "members_bound s" and id0: "identified s" and dk0: "distinct_keys s"
    by (simp_all add: consistent_def)
  have "members_bound (s\<lparr>clientsMap := AList.delete c (clientsMap s)\<rparr>)"
    unfolding members_bound_def
  proof (intro allI impI)
    fix r room
    assume "map_of (roomsMap (s\<lparr>clientsMap := AList.delete c (clientsMap s)\<rparr>)) r = Some room"
    then have old: "map_of (roomsMap s) r = Some room" by simp
    with assms(2) have "c \<notin> set (clients room)" by (simp add: in_no_room_def)
    with members_boundD [OF mb0 old]
    show "clients room \<noteq> [] \<and> distinct (clients room) \<and>
          (\<forall>d\<in>set (clients room). \<exists>cl. map_of (clientsMap (s\<lparr>clientsMap := AList.delete c (clientsMap s)\<rparr>)) d = Some cl
               \<and> roomId cl = Some r)"
      by (auto simp: delete_conv')
  qed
  moreover have "identified (s\<lparr>clientsMap := AList.delete c (clientsMap s)\<rparr>)"
    using id0 unfolding identified_def by (auto simp: delete_conv' split: if_splits)
  moreover have "distinct_keys (s\<lparr>clientsMap := AList.delete c (clientsMap s)\<rparr>)"
    using dk0 by (simp add: distinct_keys_def distinct_delete)
  ultimately show ?thesis by (simp add: consistent_def)
qed

lemma handleDisconnect_consistent:
  assumes "consistent s"
  shows "consistent (fst (handleDisconnect now c s))"
proof (cases "map_of (clientsMap s) c")
  case None
  with assms show ?thesis by (simp add: handleDisconnect_def)
next
  case (Some client)
  define s1 where "s1 = (case roomId client of None \<Rightarrow> s
                        | Some cur \<Rightarrow> if cur = [] then s else fst (leaveRoom now c cur s))"
  have eq: "fst (handleDisconnect now c s) = s1\<lparr>clientsMap := AList.delete c (clientsMap s1)\<rparr>"
    using Some by (auto simp: handleDisconnect_def s1_def split: option.splits prod.splits)
  have "consistent s1 \<and> in_no_room s1 c"
  proof (cases "roomId client")
    case None
    with assms Some show ?thesis by (simp add: s1_def registered_in_no_room)
  next
    case cur: (Some cur)
    from assms Some cur have "cur \<noteq> []"
      by (auto simp: consistent_def identified_def)
    with cur leaveRoom_consistent [OF assms Some cur, of now] show ?thesis
      by (simp add: s1_def)
  qed
  then show ?thesis unfolding eq by (simp add: consistent_delete_client)
qed

lemma handleMessage_consistent:
  assumes "consistent s"
  shows "consistent (fst (handleMessage now uuid c rawData s))"
proof (cases "map_of (clientsMap s) c")
  case None
  with assms show ?thesis by (simp add: handleMessage_def)
next
  case (Some client)
  show ?thesis
  proof (cases rawData)
    case None
    with assms Some show ?thesis by (simp add: handleMessage_def)
  next
    case (Some message)
    obtain allowed rl where a: "isAllowed now (c @ '':'' @ msg_type message) (limiter s) = (allowed, rl)"
      by (cases "isAllowed now (c @ '':'' @ msg_type message) (limiter s)")
    from assms have "consistent (s\<lparr>limiter := rl\<rparr>)" by simp
    with assms \<open>map_of (clientsMap s) c = Some client\<close> Some a show ?thesis
      by (simp add: handleMessage_def Let_def handleJoinRoom_consistent handleChatMessage_consistent
            handleTyping_state handlePing_consistent)
  qed
qed

lemma onConnection_consistent:
  assumes "consistent s" and "c \<notin> fst ` set (clientsMap s)"
  shows "consistent (fst (onConnection now c s))"
proof -
  from assms(1) have mb0: "members_bound s" and id0: "identified s" and dk0: "distinct_keys s"
    by (simp_all add: consistent_def)
  from assms(2) have none: "map_of (clientsMap s) c = None"
    by (simp add: map_of_eq_None_iff)
  let ?s' = "fst (onConnection now c s)"
  have "members_bound ?s'"
    using mb0 none unfolding members_bound_def
    by (fastforce simp: onConnection_def Let_def update_conv')
  moreover have "identified ?s'"
    using id0 unfolding identified_def
    by (auto simp: onConnection_def Let_def update_conv' split: if_splits)
  moreover have "distinct_keys ?s'"
    using dk0 by (simp add: onConnection_def Let_def distinct_keys_def distinct_update)
  ultimately show ?thesis by (simp add: consistent_def)
qed

lemma onPong_consistent: "consistent s \<Longrightarrow> consistent (onPong now c s)"
  by (auto simp: onPong_def consistent_update_client split: option.splits)

lemma socketNotOpen_consistent: "consistent s \<Longrightarrow> consistent (socketNotOpen c s)"
  by (auto simp: socketNotOpen_def consistent_update_client split: option.splits)

lemma fold_preserves:
  assumes "\<And>k acc. P (fst acc) \<Longrightarrow> P (fst (f k acc))"
  shows "P (fst acc) \<Longrightarrow> P (fst (fold f ks acc))"
  by (induction ks arbitrary: acc) (simp_all add: assms)

lemma heartbeatClient_consistent:
  assumes "consistent (fst acc)"
  shows "consistent (fst (heartbeatClient now c acc))"
proof (cases acc)
  case (Pair s out)
  with assms have cs: "consistent s" by simp
  show ?thesis
  proof (cases "map_of (clientsMap s) c")
    case None
    with Pair cs show ?thesis by (simp add: heartbeatClient_def)
  next
    case (Some client)
    have a: "consistent (s\<lparr>clientsMap := AList.update c (client\<lparr>wsOpen := False\<rparr>) (clientsMap s)\<rparr>)"
      and b: "consistent (s\<lparr>clientsMap := AList.update c (client\<lparr>isAlive := False\<rparr>) (clientsMap s)\<rparr>)"
      using cs Some by (simp_all add: consistent_update_client)
    obtain s1 out1 where
      d: "handleDisconnect now c (s\<lparr>clientsMap := AList.update c (client\<lparr>wsOpen := False\<rparr>) (clientsMap s)\<rparr>)
            = (s1, out1)"
      by (cases "handleDisconnect now c (s\<lparr>clientsMap := AList.update c (client\<lparr>wsOpen := False\<rparr>) (clientsMap s)\<rparr>)")
    with handleDisconnect_consistent [OF a, of now c] have "consistent s1" by simp
    with Pair Some b d show ?thesis
      by (simp add: heartbeatClient_def Let_def)
  qed
qed

lemma heartbeat_consistent: "consistent s \<Longrightarrow> consistent (fst (heartbeat now s))"
  unfolding heartbeat_def
  by (rule fold_preserves [where P = consistent]) (simp_all add: heartbeatClient_consistent)

lemma map_of_filter_distinct:
  assumes "distinct (map fst al)"
  shows "map_of (filter P al) k
           = (case map_of al k of None \<Rightarrow> None | Some v \<Rightarrow> if P (k, v) then Some v else None)"
  using assms
proof (induction al)
  case Nil
  then show ?case by simp
next
  case (Cons a al)
  obtain k' v' where a: "a = (k', v')" by (cases a)
  from Cons.prems a have "map_of al k' = None"
    by (simp add: map_of_eq_None_iff)
  with Cons a show ?case
    by (auto split: option.splits)
qed

lemma cleanupRooms_rooms_map:
  assumes "distinct_keys s"
  shows "map_of (roomsMap (cleanupRooms now s)) rid
           = (case map_of (roomsMap s) rid of
                None \<Rightarrow> None
              | Some room \<Rightarrow> if now - lastActivity room > roomTimeout then None else Some room)"
  using assms
  by (simp add: cleanupRooms_def distinct_keys_def map_of_filter_distinct split: option.splits)

lemma cleanupRooms_consistent:
  assumes "consistent s"
  shows "consistent (cleanupRooms now s)"
proof -
  from assms have mb0: "members_bound s" and id0: "identified s" and dk0: "distinct_keys s"
    by (simp_all add: consistent_def)
  have c: "clientsMap (cleanupRooms now s) = clientsMap s"
    by (simp add: cleanupRooms_def)
  have "members_bound (cleanupRooms now s)"
    using mb0 unfolding members_bound_def cleanupRooms_rooms_map [OF dk0] c
    by (auto split: option.splits if_splits)
  moreover have "identified (cleanupRooms now s)"
    using id0 unfolding identified_def c by auto
  moreover have "distinct_keys (cleanupRooms now s)"
    using dk0 by (simp add: distinct_keys_def cleanupRooms_def distinct_map_filter)
  ultimately show ?thesis by (simp add: consistent_def)
qed

lemma cleanupClient_consistent:
  assumes "consistent (fst acc)"
  shows "consistent (fst (cleanupClient now c acc))"
proof (cases acc)
  case (Pair s out)
  with assms handleDisconnect_consistent [of s now c] show ?thesis
    by (auto simp: cleanupClient_def split: option.splits prod.splits)
qed

lemma cleanupClients_consistent: "consistent s \<Longrightarrow> consistent (fst (cleanupClients now s))"
  unfolding cleanupClients_def
  by (rule fold_preserves [where P = consistent]) (simp_all add: cleanupClient_consistent)

lemma cleanup_consistent: "consistent s \<Longrightarrow> consistent (fst (cleanup now s))"
  by (simp add: cleanup_def cleanupClients_consistent cleanupRooms_consistent)

lemma initial_consistent: "consistent initial_server"
  by (simp add: consistent_def members_bound_def identified_def distinct_keys_def initial_server_def)

lemma reachable_consistent: "reachable s \<Longrightarrow> consistent s"
  by (induction rule: reachable.induct)
     (simp_all add: initial_consistent onConnection_consistent handleMessage_consistent
        handleDisconnect_consistent onPong_consistent socketNotOpen_consistent
        heartbeat_consistent cleanup_consistent)

section \<open>Joining a room while in another\<close>

lemma filter_removeAll: "filter P (removeAll c xs) = filter (\<lambda>d. d \<noteq> c \<and> P d) xs"
  by (induction xs) auto

lemma leaveRoom_output:
  assumes "map_of (clientsMap s) c = Some client" and "map_of (roomsMap s) rid = Some room"
    and "userId client = Some u" and "username client = Some n" and "u \<noteq> []" and "n \<noteq> []"
  shows "snd (leaveRoom now c rid s)
           = map (\<lambda>d. (d, UserLeft rid u n now)) (filter (\<lambda>d. d \<noteq> c \<and> deliverable s d) (clients room))"
proof -
  let ?s1 = "s\<lparr>roomsMap := AList.update rid (room\<lparr>clients := removeAll c (clients room)\<rparr>) (roomsMap s)\<rparr>"
  have "map_of (roomsMap ?s1) rid = Some (room\<lparr>clients := removeAll c (clients room)\<rparr>)"
    by (simp add: update_conv')
  from broadcast_recipients [OF this, of "UserLeft rid u n now" "Some c"]
  have "broadcastToRoom rid (UserLeft rid u n now) (Some c) ?s1
          = map (\<lambda>d. (d, UserLeft rid u n now)) (filter (\<lambda>d. d \<noteq> c \<and> deliverable s d) (clients room))"
    by (simp add: filter_removeAll cong: conj_cong)
  with assms show ?thesis
    by (simp add: leaveRoom_def Let_def)
qed

lemma two_in_room_eq:
  "two_in_room =
     \<lparr>clientsMap = [(''c1'', \<lparr>conn_id = ''c1'', wsOpen = True, userId = Some ''u1'', username = Some ''ann'',
                              roomId = Some ''r1'', lastPing = 1, isAlive = True\<rparr>),
                    (''c2'', \<lparr>conn_id = ''c2'', wsOpen = True, userId = Some ''u2'', username = Some ''bob'',
                              roomId = Some ''r1'', lastPing = 2, isAlive = True\<rparr>)],
      roomsMap = [(''r1'', \<lparr>room_id = ''r1'', clients = [''c1'', ''c2''], createdAt = 3, lastActivity = 4\<rparr>)],
      limiter = \<lparr>attempts = [(''c1:join_room'', [3]), (''c2:join_room'', [4])],
                  maxAttempts = 10, windowMs = 60 * 1000\<rparr>\<rparr>"
  by (simp add: two_in_room_def initial_server_def messageRateLimiter_def onConnection_def
        handleMessage_def isAllowed_def join_frame_def handleJoinRoom_def enterRoom_def Let_def
        sendToClient_def)

lemma two_in_room_reachable: "reachable two_in_room"
  unfolding two_in_room_def
  by (intro r_message r_connection r_init) (simp_all add: initial_server_def onConnection_def Let_def)

text \<open>
  C4.  In every reachable state of the standalone server a connection is a member of at
  most one room.  When a connection that is a member of room \<open>A\<close> processes a
  \<open>join_room\<close> for room \<open>B\<close>, the handler first leaves \<open>A\<close>: \<open>user_left\<close> with the
  connection's previous identity goes to the other members of \<open>A\<close> (those with an open
  socket) and the connection is in no room; only then does it enter \<open>B\<close>, and the outputs
  of the leave precede those of the join.  After the join the connection is a member of
  \<open>B\<close> and of no other room.
\<close>

theorem join_leaves_previous_room:
  assumes "reachable s"
    and "map_of (roomsMap s) A = Some roomA" and "c \<in> set (clients roomA)"
    and "msg_roomId message = Some B" and "msg_userId message = Some uid"
    and "msg_username message = Some uname"
    and "B \<noteq> []" and "uid \<noteq> []" and "uname \<noteq> []"
  shows "(\<forall>d r1 r2 room1 room2.
            map_of (roomsMap s) r1 = Some room1 \<and> d \<in> set (clients room1) \<and>
            map_of (roomsMap s) r2 = Some room2 \<and> d \<in> set (clients room2) \<longrightarrow> r1 = r2)
       \<and> (\<exists>client u0 n0.
            map_of (clientsMap s) c = Some client \<and> roomId client = Some A \<and>
            userId client = Some u0 \<and> username client = Some n0 \<and>
            snd (leaveRoom now c A s)
              = map (\<lambda>d. (d, UserLeft A u0 n0 now))
                    (filter (\<lambda>d. d \<noteq> c \<and> deliverable s d) (clients roomA)))
       \<and> in_no_room (fst (leaveRoom now c A s)) c
       \<and> handleJoinRoom now c message s
            = (fst (enterRoom now c B uid uname (fst (leaveRoom now c A s))),
               snd (leaveRoom now c A s) @ snd (enterRoom now c B uid uname (fst (leaveRoom now c A s))))
       \<and> (\<forall>rid room. map_of (roomsMap (fst (handleJoinRoom now c message s))) rid = Some room
              \<longrightarrow> (c \<in> set (clients room) \<longleftrightarrow> rid = B))
       \<and> (\<exists>room. map_of (roomsMap (fst (handleJoinRoom now c message s))) B = Some room)"
proof -
  from assms(1) have cs: "consistent s" by (rule reachable_consistent)
  then have mb: "members_bound s" and idn: "identified s" by (simp_all add: consistent_def)
  have one: "\<forall>d r1 r2 room1 room2.
            map_of (roomsMap s) r1 = Some room1 \<and> d \<in> set (clients room1) \<and>
            map_of (roomsMap s) r2 = Some room2 \<and> d \<in> set (clients room2) \<longrightarrow> r1 = r2"
    using mb unfolding members_bound_def by (metis option.inject)
  from members_boundD(3) [OF mb assms(2,3)] obtain client where
    client: "map_of (clientsMap s) c = Some client" "roomId client = Some A" by blast
  from idn client have "A \<noteq> []" "truthy (userId client)" "truthy (username client)"
    unfolding identified_def by blast+
  then obtain u0 n0 where
    who: "userId client = Some u0" "username client = Some n0" "u0 \<noteq> []" "n0 \<noteq> []" and A: "A \<noteq> []"
    by (auto simp: truthy_def split: option.splits)
  note out = leaveRoom_output [OF client(1) assms(2) who, of now]
  let ?s1 = "fst (leaveRoom now c A s)"
  from leaveRoom_consistent [OF cs client, of now]
  have cs1: "consistent ?s1" and nr: "in_no_room ?s1 c" by simp_all
  have eq: "handleJoinRoom now c message s
            = (fst (enterRoom now c B uid uname ?s1),
               snd (leaveRoom now c A s) @ snd (enterRoom now c B uid uname ?s1))"
    using client A assms(4-9) by (simp add: handleJoinRoom_def split: prod.splits)
  from leaveRoom_registered [OF client(1), of now A] obtain client1 where
    c1: "map_of (clientsMap ?s1) c = Some client1" by blast
  let ?s2 = "fst (enterRoom now c B uid uname ?s1)"
  have cs2: "consistent ?s2"
    by (rule enterRoom_consistent [OF cs1 c1 nr assms(7-9)])
  have c2: "map_of (clientsMap ?s2) c
              = Some (client1\<lparr>userId := Some uid, username := Some uname, roomId := Some B\<rparr>)"
    by (simp add: enterRoom_clients_map [OF c1])
  note rm = enterRoom_rooms_map [OF c1 nr, of now B uid uname]
  have inB: "\<exists>room. map_of (roomsMap ?s2) B = Some room \<and> c \<in> set (clients room)"
    by (auto simp: rm split: option.splits)
  have only: "\<forall>rid room. map_of (roomsMap ?s2) rid = Some room
              \<longrightarrow> (c \<in> set (clients room) \<longleftrightarrow> rid = B)"
  proof (intro allI impI)
    fix rid room
    assume r: "map_of (roomsMap ?s2) rid = Some room"
    show "c \<in> set (clients room) \<longleftrightarrow> rid = B"
    proof
      assume "c \<in> set (clients room)"
      from member_room_unique [OF _ c2 _ r this] cs2 show "rid = B"
        by (simp add: consistent_def)
    next
      assume "rid = B"
      with r inB show "c \<in> set (clients room)" by auto
    qed
  qed
  from one client who out nr eq only inB show ?thesis
    unfolding eq fst_conv by blast
qed

theorem join_leaves_previous_room_witness:
  "snd (handleJoinRoom 5 ''c2'' (join_frame ''r2'' ''u2'' ''bob'') two_in_room)
     = [(''c1'', UserLeft ''r1'' ''u2'' ''bob'' 5),
        (''c2'', RoomJoined ''r2'' [\<lparr>p_id = ''u2'', p_username = ''bob'', p_isOnline = True\<rparr>])]
   \<and> map (\<lambda>(rid, room). (rid, clients room))
         (roomsMap (fst (handleJoinRoom 5 ''c2'' (join_frame ''r2'' ''u2'' ''bob'') two_in_room)))
     = [(''r1'', [''c1'']), (''r2'', [''c2''])]"
  using join_leaves_previous_room [OF two_in_room_reachable, where A = "''r1''" and c = "''c2''"
      and message = "join_frame ''r2'' ''u2'' ''bob''" and B = "''r2''" and uid = "''u2''"
      and uname = "''bob''" and now = 5
      and roomA = "\<lparr>room_id = ''r1'', clients = [''c1'', ''c2''], createdAt = 3, lastActivity = 4\<rparr>"]
  by (simp add: two_in_room_eq join_frame_def leaveRoom_def enterRoom_def Let_def
        broadcastToRoom_def sendToClient_def getRoomParticipants_def)

section \<open>The idle-room sweep\<close>

lemma quiet_room_eq:
  "quiet_room =
     \<lparr>clientsMap = [(''c1'', \<lparr>conn_id = ''c1'', wsOpen = True, userId = Some ''u1'', username = Some ''ann'',
                              roomId = Some ''r1'', lastPing = 1, isAlive = True\<rparr>),
                    (''c2'', \<lparr>conn_id = ''c2'', wsOpen = True, userId = Some ''u2'', username = Some ''bob'',
                              roomId = Some ''r1'', lastPing = 3600000, isAlive = True\<rparr>)],
      roomsMap = [(''r1'', \<lparr>room_id = ''r1'', clients = [''c1'', ''c2''], createdAt = 3, lastActivity = 4\<rparr>)],
      limiter = \<lparr>attempts = [(''c1:join_room'', [3]), (''c2:join_room'', [4]), (''c2:ping'', [3600000])],
                  maxAttempts = 10, windowMs = 60 * 1000\<rparr>\<rparr>"
  by (simp add: quiet_room_def two_in_room_eq handleMessage_def isAllowed_def ping_frame_def
        handlePing_def Let_def)

lemma quiet_room_reachable: "reachable quiet_room"
  unfolding quiet_room_def by (intro r_message two_in_room_reachable)

text \<open>
  C6, as stated, fails: the sweep deletes a room that has two members, because nobody
  has sent a chat message or joined for an hour.
\<close>

theorem idle_sweep_deletes_occupied_room:
  "map_of (roomsMap quiet_room) ''r1''
     = Some \<lparr>room_id = ''r1'', clients = [''c1'', ''c2''], createdAt = 3, lastActivity = 4\<rparr>
   \<and> map_of (roomsMap (cleanupRooms 3600005 quiet_room)) ''r1'' = None"
  by (simp add: quiet_room_eq cleanupRooms_def roomTimeout_def)

lemma leaveRoom_other_room:
  "r \<noteq> rid \<Longrightarrow> map_of (roomsMap (fst (leaveRoom now c rid s))) r = map_of (roomsMap s) r"
proof (cases "map_of (clientsMap s) c = None \<or> map_of (roomsMap s) rid = None")
  case True
  then show ?thesis by (simp add: leaveRoom_noop)
next
  case False
  assume "r \<noteq> rid"
  with False show ?thesis by (auto simp: leaveRoom_rooms_map)
qed

lemma join_creates_fresh_room:
  assumes "map_of (clientsMap s) c = Some client" and "map_of (roomsMap s) rid = None"
    and "msg_roomId message = Some rid" and "msg_userId message = Some uid"
    and "msg_username message = Some uname"
    and "rid \<noteq> []" and "uid \<noteq> []" and "uname \<noteq> []"
  shows "map_of (roomsMap (fst (handleJoinRoom now c message s))) rid
           = Some \<lparr>room_id = rid, clients = [c], createdAt = now, lastActivity = now\<rparr>"
proof -
  define s1 where "s1 = (case roomId client of None \<Rightarrow> s
                        | Some cur \<Rightarrow> if cur = [] then s else fst (leaveRoom now c cur s))"
  have eq: "fst (handleJoinRoom now c message s) = fst (enterRoom now c rid uid uname s1)"
    using assms by (auto simp: handleJoinRoom_def s1_def split: option.splits prod.splits)
  have r1: "map_of (roomsMap s1) rid = None"
  proof (cases "roomId client")
    case None
    with assms(2) show ?thesis by (simp add: s1_def)
  next
    case (Some cur)
    show ?thesis
    proof (cases "cur = rid")
      case True
      with Some assms(2) show ?thesis by (auto simp: s1_def leaveRoom_noop)
    next
      case False
      with Some assms(2) show ?thesis by (simp add: s1_def leaveRoom_other_room)
    qed
  qed
  have "\<exists>client1. map_of (clientsMap s1) c = Some client1"
    using assms(1) leaveRoom_registered [OF assms(1)]
    by (auto simp: s1_def split: option.splits)
  then obtain client1 where "map_of (clientsMap s1) c = Some client1" by blast
  with r1 show ?thesis
    unfolding eq by (simp add: enterRoom_def Let_def update_conv')
qed

text \<open>
  C6, amended.  The idle-room sweep of the standalone server deletes exactly the rooms
  whose last activity is more than one hour old, whatever their membership, and leaves
  the other rooms and all clients as they are.  A room in the directory always has a
  member (a room is deleted as soon as its last member leaves), so the rooms the sweep
  deletes are never empty.  A join with the id of a room that is not in the directory
  creates a fresh entry with the joining client as its only member.
\<close>

theorem idle_sweep_deletes_by_last_activity:
  assumes "reachable s"
    and "map_of (clientsMap s') c = Some client" and "map_of (roomsMap s') rid = None"
    and "msg_roomId message = Some rid" and "msg_userId message = Some uid"
    and "msg_username message = Some uname"
    and "rid \<noteq> []" and "uid \<noteq> []" and "uname \<noteq> []"
  shows "(\<forall>r. map_of (roomsMap (cleanupRooms now s)) r
              = (case map_of (roomsMap s) r of
                   None \<Rightarrow> None
                 | Some room \<Rightarrow> if now - lastActivity room > 60 * 60 * 1000 then None else Some room))
       \<and> clientsMap (cleanupRooms now s) = clientsMap s
       \<and> (\<forall>r room. map_of (roomsMap s) r = Some room \<longrightarrow> clients room \<noteq> [])
       \<and> map_of (roomsMap (fst (handleJoinRoom t c message s'))) rid
           = Some \<lparr>room_id = rid, clients = [c], createdAt = t, lastActivity = t\<rparr>"
proof -
  from assms(1) have cs: "consistent s" by (rule reachable_consistent)
  then have dk: "distinct_keys s" and mb: "members_bound s" by (simp_all add: consistent_def)
  have a: "\<forall>r. map_of (roomsMap (cleanupRooms now s)) r
              = (case map_of (roomsMap s) r of
                   None \<Rightarrow> None
                 | Some room \<Rightarrow> if now - lastActivity room > 60 * 60 * 1000 then None else Some room)"
    using cleanupRooms_rooms_map [OF dk, of now] unfolding roomTimeout_def by blast
  have b: "clientsMap (cleanupRooms now s) = clientsMap s"
    by (simp add: cleanupRooms_def)
  have c: "\<forall>r room. map_of (roomsMap s) r = Some room \<longrightarrow> clients room \<noteq> []"
    using mb unfolding members_bound_def by blast
  from a b c join_creates_fresh_room [OF assms(2-)] show ?thesis by blast
qed

theorem idle_sweep_deletes_by_last_activity_witness:
  "map_of (roomsMap (cleanupRooms 3600004 quiet_room)) ''r1''
     = Some \<lparr>room_id = ''r1'', clients = [''c1'', ''c2''], createdAt = 3, lastActivity = 4\<rparr>
   \<and> map_of (roomsMap (cleanupRooms 3600005 quiet_room)) ''r1'' = None
   \<and> map_of (roomsMap (fst (handleJoinRoom 3600006 ''c2'' (join_frame ''r1'' ''u2'' ''bob'')
                               (cleanupRooms 3600005 quiet_room)))) ''r1''
     = Some \<lparr>room_id = ''r1'', clients = [''c2''], createdAt = 3600006, lastActivity = 3600006\<rparr>"
  using idle_sweep_deletes_by_last_activity [OF quiet_room_reachable, where now = 3600004
      and s' = "cleanupRooms 3600005 quiet_room" and c = "''c2''" and rid = "''r1''"
      and message = "join_frame ''r1'' ''u2'' ''bob''" and uid = "''u2''" and uname = "''bob''"
      and t = 3600006]
    idle_sweep_deletes_by_last_activity [OF quiet_room_reachable, where now = 3600005
      and s' = "cleanupRooms 3600005 quiet_room" and c = "''c2''" and rid = "''r1''"
      and message = "join_frame ''r1'' ''u2'' ''bob''" and uid = "''u2''" and uname = "''bob''"
      and t = 3600006]
  by (simp add: quiet_room_eq join_frame_def cleanupRooms_def roomTimeout_def)

section \<open>Eviction of silent clients\<close>

text \<open>
  C5, as stated, fails: client \<open>c1\<close> has been silent for an hour and is evicted, but the
  room sweep of the same callback has just deleted its idle room, so the other member
  \<open>c2\<close> receives nothing.
\<close>

theorem idle_room_swallows_user_left:
  "cleanup 3600005 quiet_room
     = (\<lparr>clientsMap = [(''c2'', \<lparr>conn_id = ''c2'', wsOpen = True, userId = Some ''u2'', username = Some ''bob'',
                              roomId = Some ''r1'', lastPing = 3600000, isAlive = True\<rparr>)],
        roomsMap = [],
        limiter = \<lparr>attempts = [(''c1:join_room'', [3]), (''c2:join_room'', [4]), (''c2:ping'', [3600000])],
                    maxAttempts = 10, windowMs = 60 * 1000\<rparr>\<rparr>, [])"
  by (simp add: quiet_room_eq cleanup_def cleanupRooms_def roomTimeout_def cleanupClients_def
        cleanupClient_def handleDisconnect_def leaveRoom_def)

lemma leaveRoom_clients_other:
  "d \<noteq> c \<Longrightarrow> map_of (clientsMap (fst (leaveRoom now c rid s))) d = map_of (clientsMap s) d"
proof (cases "map_of (clientsMap s) c = None \<or> map_of (roomsMap s) rid = None")
  case True
  then show ?thesis by (simp add: leaveRoom_noop)
next
  case False
  assume "d \<noteq> c"
  with False show ?thesis by (auto simp: leaveRoom_clients_map)
qed

lemma leaveRoom_keeps_member:
  assumes "map_of (roomsMap s) r = Some room" and "d \<in> set (clients room)" and "d \<noteq> c"
  shows "\<exists>room'. map_of (roomsMap (fst (leaveRoom now c rid s))) r = Some room' \<and> d \<in> set (clients room')"
proof (cases "map_of (clientsMap s) c = None \<or> map_of (roomsMap s) rid = None")
  case True
  with assms show ?thesis by (simp add: leaveRoom_noop)
next
  case False
  then obtain client room0 where
    h: "map_of (clientsMap s) c = Some client" "map_of (roomsMap s) rid = Some room0" by auto
  show ?thesis
  proof (cases "r = rid")
    case True
    with assms h have "d \<in> set (removeAll c (clients room0))" by simp
    then have "removeAll c (clients room0) \<noteq> []" by (metis empty_iff empty_set)
    with True assms h show ?thesis
      by (simp add: leaveRoom_rooms_map [OF h])
  next
    case False
    with assms show ?thesis by (simp add: leaveRoom_other_room)
  qed
qed

lemma handleDisconnect_removes:
  "map_of (clientsMap (fst (handleDisconnect now c s))) c = None"
  by (auto simp: handleDisconnect_def delete_conv' split: option.splits prod.splits)

lemma handleDisconnect_clients_other:
  "d \<noteq> c \<Longrightarrow> map_of (clientsMap (fst (handleDisconnect now c s))) d = map_of (clientsMap s) d"
proof (cases "map_of (clientsMap s) c")
  case None
  then show ?thesis by (simp add: handleDisconnect_def)
next
  case (Some client)
  assume dc: "d \<noteq> c"
  define s1 where "s1 = (case roomId client of None \<Rightarrow> s
                        | Some cur \<Rightarrow> if cur = [] then s else fst (leaveRoom now c cur s))"
  have eq: "fst (handleDisconnect now c s) = s1\<lparr>clientsMap := AList.delete c (clientsMap s1)\<rparr>"
    using Some by (auto simp: handleDisconnect_def s1_def split: option.splits prod.splits)
  have "map_of (clientsMap s1) d = map_of (clientsMap s) d"
    using dc by (auto simp: s1_def leaveRoom_clients_other split: option.splits)
  with dc show ?thesis by (simp add: eq delete_conv')
qed

lemma handleDisconnect_keeps_member:
  assumes "map_of (roomsMap s) r = Some room" and "d \<in> set (clients room)" and "d \<noteq> c"
  shows "\<exists>room'. map_of (roomsMap (fst (handleDisconnect now c s))) r = Some room' \<and> d \<in> set (clients room')"
proof (cases "map_of (clientsMap s) c")
  case None
  with assms show ?thesis by (simp add: handleDisconnect_def)
next
  case (Some client)
  define s1 where "s1 = (case roomId client of None \<Rightarrow> s
                        | Some cur \<Rightarrow> if cur = [] then s else fst (leaveRoom now c cur s))"
  have eq: "fst (handleDisconnect now c s) = s1\<lparr>clientsMap := AList.delete c (clientsMap s1)\<rparr>"
    using Some by (auto simp: handleDisconnect_def s1_def split: option.splits prod.splits)
  have "\<exists>room'. map_of (roomsMap s1) r = Some room' \<and> d \<in> set (clients room')"
    using assms leaveRoom_keeps_member [OF assms]
    by (auto simp: s1_def split: option.splits)
  then show ?thesis by (simp add: eq)
qed

lemma handleDisconnect_output:
  assumes "map_of (clientsMap s) c = Some client" and "roomId client = Some rid" and "rid \<noteq> []"
    and "map_of (roomsMap s) rid = Some room"
    and "userId client = Some u" and "username client = Some n" and "u \<noteq> []" and "n \<noteq> []"
  shows "snd (handleDisconnect now c s)
           = map (\<lambda>d. (d, UserLeft rid u n now)) (filter (\<lambda>d. d \<noteq> c \<and> deliverable s d) (clients room))"
  using assms leaveRoom_output [OF assms(1,4-), of now]
  by (cases "leaveRoom now c rid s") (simp add: handleDisconnect_def)

lemma cleanupClient_clients_other:
  "k \<noteq> c \<Longrightarrow> map_of (clientsMap (fst (cleanupClient now k (s, out)))) c = map_of (clientsMap s) c"
  using handleDisconnect_clients_other [of c k now s]
  by (auto simp: cleanupClient_def split: option.splits prod.splits)

lemma cleanupClient_absent:
  "map_of (clientsMap s) c = None \<Longrightarrow> map_of (clientsMap (fst (cleanupClient now k (s, out)))) c = None"
  using handleDisconnect_clients_other [of c k now s] handleDisconnect_removes [of now c s]
  by (cases "k = c") (auto simp: cleanupClient_def split: option.splits prod.splits)

lemma cleanupClient_output:
  "\<exists>extra. snd (cleanupClient now k (s, out)) = out @ extra"
  by (auto simp: cleanupClient_def split: option.splits prod.splits)

lemma cleanupClients_output_grows:
  "x \<in> set out \<Longrightarrow> x \<in> set (snd (fold (cleanupClient now) ks (s, out)))"
proof (induction ks arbitrary: s out)
  case Nil
  then show ?case by simp
next
  case (Cons k ks)
  obtain s' out' where step: "cleanupClient now k (s, out) = (s', out')"
    by (cases "cleanupClient now k (s, out)")
  with cleanupClient_output [of now k s out] Cons.prems have "x \<in> set out'" by auto
  from Cons.IH [OF this] step show ?case by simp
qed

lemma cleanupClients_absent:
  "map_of (clientsMap s) c = None \<Longrightarrow>
   map_of (clientsMap (fst (fold (cleanupClient now) ks (s, out)))) c = None"
proof (induction ks arbitrary: s out)
  case Nil
  then show ?case by simp
next
  case (Cons k ks)
  obtain s' out' where step: "cleanupClient now k (s, out) = (s', out')"
    by (cases "cleanupClient now k (s, out)")
  with cleanupClient_absent [OF Cons.prems, of now k out] have "map_of (clientsMap s') c = None"
    by simp
  from Cons.IH [OF this] step show ?case by simp
qed

lemma cleanupClients_evicts:
  assumes "c \<in> set ks" and "map_of (clientsMap s) c = Some client" and "now - lastPing client > 60000"
  shows "map_of (clientsMap (fst (fold (cleanupClient now) ks (s, out)))) c = None"
  using assms
proof (induction ks arbitrary: s out)
  case Nil
  then show ?case by simp
next
  case (Cons k ks)
  obtain s' out' where step: "cleanupClient now k (s, out) = (s', out')"
    by (cases "cleanupClient now k (s, out)")
  show ?case
  proof (cases "k = c")
    case True
    with Cons.prems step handleDisconnect_removes [of now c s]
    have "map_of (clientsMap s') c = None"
      by (auto simp: cleanupClient_def split: prod.splits)
    from cleanupClients_absent [OF this] step show ?thesis by simp
  next
    case False
    with Cons.prems have "c \<in> set ks" by simp
    moreover from False cleanupClient_clients_other [of k c now s out] step Cons.prems
    have "map_of (clientsMap s') c = Some client" by simp
    ultimately show ?thesis
      using Cons.IH [of s' out'] Cons.prems(3) step by simp
  qed
qed

lemma cleanupClient_keeps_member:
  assumes "map_of (roomsMap s) r = Some room" and "d \<in> set (clients room)" and "d \<noteq> k"
  shows "\<exists>room'. map_of (roomsMap (fst (cleanupClient now k (s, out)))) r = Some room'
                 \<and> d \<in> set (clients room')"
  using assms handleDisconnect_keeps_member [OF assms, of now]
  by (auto simp: cleanupClient_def split: option.splits prod.splits)

lemma cleanupClient_fresh:
  "map_of (clientsMap s) k = Some client \<Longrightarrow> \<not> now - lastPing client > 60000
   \<Longrightarrow> cleanupClient now k (s, out) = (s, out)"
  by (simp add: cleanupClient_def)

lemma cleanupClients_notifies:
  assumes "c \<in> set ks"
    and "map_of (clientsMap s) c = Some client" and "now - lastPing client > 60000"
    and "roomId client = Some rid" and "rid \<noteq> []"
    and "userId client = Some u" and "username client = Some n" and "u \<noteq> []" and "n \<noteq> []"
    and "map_of (roomsMap s) rid = Some room" and "d \<in> set (clients room)" and "d \<noteq> c"
    and "map_of (clientsMap s) d = Some cd" and "wsOpen cd" and "\<not> now - lastPing cd > 60000"
  shows "(d, UserLeft rid u n now) \<in> set (snd (fold (cleanupClient now) ks (s, out)))"
  using assms(1,2,10,11,13)
proof (induction ks arbitrary: s out room)
  case Nil
  then show ?case by simp
next
  case (Cons k ks)
  obtain s' out' where step: "cleanupClient now k (s, out) = (s', out')"
    by (cases "cleanupClient now k (s, out)")
  show ?case
  proof (cases "k = c")
    case True
    have "deliverable s d"
      using Cons.prems(5) assms(14) by (simp add: deliverable_def)
    with Cons.prems(4) assms(12)
    have "(d, UserLeft rid u n now) \<in> set (snd (handleDisconnect now c s))"
      by (simp add: handleDisconnect_output [OF Cons.prems(2) assms(4,5) Cons.prems(3) assms(6-9)])
    with True step Cons.prems(2) assms(3) have "(d, UserLeft rid u n now) \<in> set out'"
      by (auto simp: cleanupClient_def split: prod.splits)
    from cleanupClients_output_grows [OF this] step show ?thesis by simp
  next
    case False
    with Cons.prems(1) have in_ks: "c \<in> set ks" by simp
    from False cleanupClient_clients_other [of k c now s out] step Cons.prems(2)
    have c': "map_of (clientsMap s') c = Some client" by simp
    have "\<exists>room'. map_of (roomsMap s') rid = Some room' \<and> d \<in> set (clients room')"
      and d': "map_of (clientsMap s') d = Some cd"
    proof -
      show "\<exists>room'. map_of (roomsMap s') rid = Some room' \<and> d \<in> set (clients room')"
      proof (cases "k = d")
        case True
        with cleanupClient_fresh [OF Cons.prems(5) assms(15), of out] step Cons.prems(3,4)
        show ?thesis by auto
      next
        case False
        then have "d \<noteq> k" by simp
        from cleanupClient_keeps_member [OF Cons.prems(3,4) this, of now out] step
        show ?thesis by simp
      qed
      show "map_of (clientsMap s') d = Some cd"
      proof (cases "k = d")
        case True
        with cleanupClient_fresh [OF Cons.prems(5) assms(15), of out] step Cons.prems(5)
        show ?thesis by auto
      next
        case False
        with cleanupClient_clients_other [of k d now s out] step Cons.prems(5)
        show ?thesis by simp
      qed
    qed
    then obtain room' where
      r': "map_of (roomsMap s') rid = Some room'" "d \<in> set (clients room')" by blast
    from Cons.IH [OF in_ks c' r' d', of out'] step show ?thesis by simp
  qed
qed

text \<open>
  C5, amended.  The clean-up callback of the standalone server evicts every client whose
  \<open>lastPing\<close> is more than 60000 ms old: afterwards it is not registered and is a member
  of no room.  If its room is still in the directory after the room sweep of the same
  callback (last activity within the hour), every other member of that room that has an
  open socket and is not itself evicted receives \<open>user_left\<close> for it.
\<close>

theorem stale_client_evicted_by_sweep:
  assumes "reachable s"
    and "map_of (clientsMap s) c = Some client" and "now - lastPing client > 60000"
  shows "map_of (clientsMap (fst (cleanup now s))) c = None
       \<and> in_no_room (fst (cleanup now s)) c
       \<and> (\<forall>rid room d cd.
             roomId client = Some rid \<and> map_of (roomsMap s) rid = Some room
             \<and> now - lastActivity room \<le> 60 * 60 * 1000
             \<and> d \<in> set (clients room) \<and> d \<noteq> c
             \<and> map_of (clientsMap s) d = Some cd \<and> wsOpen cd \<and> now - lastPing cd \<le> 60000
           \<longrightarrow> (\<exists>u n. userId client = Some u \<and> username client = Some n
                      \<and> (d, UserLeft rid u n now) \<in> set (snd (cleanup now s))))"
proof -
  from assms(1) have cs: "consistent s" by (rule reachable_consistent)
  let ?s0 = "cleanupRooms now s"
  have cs0: "consistent ?s0" by (rule cleanupRooms_consistent [OF cs])
  have cm0: "clientsMap ?s0 = clientsMap s" by (simp add: cleanupRooms_def)
  from assms(2) have "(c, client) \<in> set (clientsMap s)" by (rule map_of_SomeD)
  then have keys: "c \<in> set (map fst (clientsMap ?s0))" by (force simp: cm0)
  have c0: "map_of (clientsMap ?s0) c = Some client" by (simp add: cm0 assms(2))
  have gone: "map_of (clientsMap (fst (cleanup now s))) c = None"
    unfolding cleanup_def cleanupClients_def
    by (rule cleanupClients_evicts [OF keys c0 assms(3)])
  have "consistent (fst (cleanup now s))" by (rule cleanup_consistent [OF cs])
  from unregistered_in_no_room [OF this gone] have nr: "in_no_room (fst (cleanup now s)) c" .
  have told: "\<forall>rid room d cd.
             roomId client = Some rid \<and> map_of (roomsMap s) rid = Some room
             \<and> now - lastActivity room \<le> 60 * 60 * 1000
             \<and> d \<in> set (clients room) \<and> d \<noteq> c
             \<and> map_of (clientsMap s) d = Some cd \<and> wsOpen cd \<and> now - lastPing cd \<le> 60000
           \<longrightarrow> (\<exists>u n. userId client = Some u \<and> username client = Some n
                      \<and> (d, UserLeft rid u n now) \<in> set (snd (cleanup now s)))"
  proof (intro allI impI, elim conjE)
    fix rid room d cd
    assume h: "roomId client = Some rid" "map_of (roomsMap s) rid = Some room"
      "now - lastActivity room \<le> 60 * 60 * 1000" "d \<in> set (clients room)" "d \<noteq> c"
      "map_of (clientsMap s) d = Some cd" "wsOpen cd" "now - lastPing cd \<le> 60000"
    from cs assms(2) h(1) have "rid \<noteq> []" "truthy (userId client)" "truthy (username client)"
      unfolding consistent_def identified_def by blast+
    then obtain u n where
      who: "userId client = Some u" "username client = Some n" "u \<noteq> []" "n \<noteq> []" and rid: "rid \<noteq> []"
      by (auto simp: truthy_def split: option.splits)
    from cs have dk: "distinct_keys s" by (simp add: consistent_def)
    from h(2,3) have r0: "map_of (roomsMap ?s0) rid = Some room"
      by (simp add: cleanupRooms_rooms_map [OF dk] roomTimeout_def)
    have d0: "map_of (clientsMap ?s0) d = Some cd" by (simp add: cm0 h(6))
    from h(8) have fresh: "\<not> now - lastPing cd > 60000" by simp
    have "(d, UserLeft rid u n now) \<in> set (snd (cleanup now s))"
      unfolding cleanup_def cleanupClients_def
      by (rule cleanupClients_notifies [OF keys c0 assms(3) h(1) rid who r0 h(4,5) d0 h(7) fresh])
    with who show "\<exists>u n. userId client = Some u \<and> username client = Some n
                      \<and> (d, UserLeft rid u n now) \<in> set (snd (cleanup now s))"
      by blast
  qed
  from gone nr told show ?thesis by blast
qed

theorem stale_client_evicted_by_sweep_witness:
  "map_of (clientsMap (fst (cleanup 3600004 quiet_room))) ''c1'' = None
   \<and> (''c2'', UserLeft ''r1'' ''u1'' ''ann'' 3600004) \<in> set (snd (cleanup 3600004 quiet_room))"
  using stale_client_evicted_by_sweep [OF quiet_room_reachable, where c = "''c1''" and now = 3600004
      and client = "\<lparr>conn_id = ''c1'', wsOpen = True, userId = Some ''u1'', username = Some ''ann'',
                      roomId = Some ''r1'', lastPing = 1, isAlive = True\<rparr>"]
  by (simp add: quiet_room_eq)

section \<open>The heartbeat\<close>

text \<open>
  The heartbeat callback goes by the \<open>isAlive\<close> flag, not by the time of the last ping:
  it terminates and disconnects every client that has not been marked alive since the
  callback before, and clears the flag of the others.  A client it evicts is not
  registered afterwards and is in no room, and if its room is in the directory, every
  other member that has an open socket and is marked alive receives \<open>user_left\<close>.
\<close>

lemma heartbeatClient_clients_other:
  "k \<noteq> c \<Longrightarrow> map_of (clientsMap (fst (heartbeatClient now k (s, out)))) c = map_of (clientsMap s) c"
proof (cases "map_of (clientsMap s) k")
  case None
  then show ?thesis by (simp add: heartbeatClient_def)
next
  case (Some client)
  assume kc: "k \<noteq> c"
  let ?s0 = "s\<lparr>clientsMap := AList.update k (client\<lparr>wsOpen := False\<rparr>) (clientsMap s)\<rparr>"
  from kc have "map_of (clientsMap (fst (handleDisconnect now k ?s0))) c = map_of (clientsMap s) c"
    by (simp add: handleDisconnect_clients_other update_conv')
  with Some kc show ?thesis
    by (cases "handleDisconnect now k ?s0") (simp add: heartbeatClient_def Let_def update_conv')
qed

lemma heartbeatClient_absent:
  "map_of (clientsMap s) c = None \<Longrightarrow> map_of (clientsMap (fst (heartbeatClient now k (s, out)))) c = None"
  using heartbeatClient_clients_other [of k c now s out]
  by (cases "k = c") (simp_all add: heartbeatClient_def)

lemma heartbeat_absent:
  "map_of (clientsMap s) c = None \<Longrightarrow>
   map_of (clientsMap (fst (fold (heartbeatClient now) ks (s, out)))) c = None"
proof (induction ks arbitrary: s out)
  case Nil
  then show ?case by simp
next
  case (Cons k ks)
  obtain s' out' where step: "heartbeatClient now k (s, out) = (s', out')"
    by (cases "heartbeatClient now k (s, out)")
  with heartbeatClient_absent [OF Cons.prems, of now k out] have "map_of (clientsMap s') c = None"
    by simp
  from Cons.IH [OF this] step show ?case by simp
qed

lemma heartbeatClient_dead:
  assumes "map_of (clientsMap s) c = Some client" and "\<not> isAlive client"
  shows "heartbeatClient now c (s, out)
           = (fst (handleDisconnect now c
                     (s\<lparr>clientsMap := AList.update c (client\<lparr>wsOpen := False\<rparr>) (clientsMap s)\<rparr>)),
              out @ snd (handleDisconnect now c
                     (s\<lparr>clientsMap := AList.update c (client\<lparr>wsOpen := False\<rparr>) (clientsMap s)\<rparr>)))"
  using assms
  by (cases "handleDisconnect now c
               (s\<lparr>clientsMap := AList.update c (client\<lparr>wsOpen := False\<rparr>) (clientsMap s)\<rparr>)")
     (simp add: heartbeatClient_def Let_def)

lemma heartbeat_evicts:
  assumes "c \<in> set ks" and "map_of (clientsMap s) c = Some client" and "\<not> isAlive client"
  shows "map_of (clientsMap (fst (fold (heartbeatClient now) ks (s, out)))) c = None"
  using assms(1,2)
proof (induction ks arbitrary: s out)
  case Nil
  then show ?case by simp
next
  case (Cons k ks)
  obtain s' out' where step: "heartbeatClient now k (s, out) = (s', out')"
    by (cases "heartbeatClient now k (s, out)")
  show ?case
  proof (cases "k = c")
    case True
    with step heartbeatClient_dead [OF Cons.prems(2) assms(3), of now out]
    have "map_of (clientsMap s') c = None"
      by (auto simp: handleDisconnect_removes)
    from heartbeat_absent [OF this] step show ?thesis by simp
  next
    case False
    with Cons.prems have "c \<in> set ks" by simp
    moreover from False heartbeatClient_clients_other [of k c now s out] step Cons.prems
    have "map_of (clientsMap s') c = Some client" by simp
    ultimately show ?thesis
      using Cons.IH [of s' out'] step by simp
  qed
qed

lemma heartbeat_evicts_unresponsive:
  assumes "reachable s" and "map_of (clientsMap s) c = Some client" and "\<not> isAlive client"
  shows "map_of (clientsMap (fst (heartbeat now s))) c = None \<and> in_no_room (fst (heartbeat now s)) c"
proof -
  from assms(1) have cs: "consistent s" by (rule reachable_consistent)
  from assms(2) have "(c, client) \<in> set (clientsMap s)" by (rule map_of_SomeD)
  then have keys: "c \<in> set (map fst (clientsMap s))" by force
  have gone: "map_of (clientsMap (fst (heartbeat now s))) c = None"
    unfolding heartbeat_def by (rule heartbeat_evicts [OF keys assms(2,3)])
  from unregistered_in_no_room [OF heartbeat_consistent [OF cs] gone] gone
  show ?thesis by simp
qed

lemma heartbeatClient_output:
  "\<exists>extra. snd (heartbeatClient now k (s, out)) = out @ extra"
  by (auto simp: heartbeatClient_def Let_def split: option.splits prod.splits)

lemma heartbeat_output_grows:
  "x \<in> set out \<Longrightarrow> x \<in> set (snd (fold (heartbeatClient now) ks (s, out)))"
proof (induction ks arbitrary: s out)
  case Nil
  then show ?case by simp
next
  case (Cons k ks)
  obtain s' out' where step: "heartbeatClient now k (s, out) = (s', out')"
    by (cases "heartbeatClient now k (s, out)")
  with heartbeatClient_output [of now k s out] Cons.prems have "x \<in> set out'" by auto
  from Cons.IH [OF this] step show ?case by simp
qed

lemma heartbeatClient_keeps_member:
  assumes "map_of (roomsMap s) r = Some room" and "d \<in> set (clients room)" and "d \<noteq> k"
  shows "\<exists>room'. map_of (roomsMap (fst (heartbeatClient now k (s, out)))) r = Some room'
                 \<and> d \<in> set (clients room')"
proof (cases "map_of (clientsMap s) k")
  case None
  with assms show ?thesis by (simp add: heartbeatClient_def)
next
  case (Some client)
  let ?s0 = "s\<lparr>clientsMap := AList.update k (client\<lparr>wsOpen := False\<rparr>) (clientsMap s)\<rparr>"
  from assms(1) have "map_of (roomsMap ?s0) r = Some room" by simp
  from handleDisconnect_keeps_member [OF this assms(2,3), of now]
  show ?thesis
    using Some assms
    by (cases "handleDisconnect now k ?s0") (auto simp: heartbeatClient_def Let_def)
qed

lemma heartbeatClient_alive:
  assumes "map_of (clientsMap s) k = Some client" and "isAlive client"
  shows "fst (heartbeatClient now k (s, out))
           = s\<lparr>clientsMap := AList.update k (client\<lparr>isAlive := False\<rparr>) (clientsMap s)\<rparr>"
  using assms by (simp add: heartbeatClient_def)

lemma heartbeat_notifies:
  assumes "\<not> isAlive client"
    and "roomId client = Some rid" and "rid \<noteq> []"
    and "userId client = Some u" and "username client = Some n" and "u \<noteq> []" and "n \<noteq> []"
    and "d \<noteq> c"
  shows "distinct ks \<Longrightarrow> c \<in> set ks \<Longrightarrow> map_of (clientsMap s) c = Some client
         \<Longrightarrow> map_of (roomsMap s) rid = Some room \<Longrightarrow> d \<in> set (clients room)
         \<Longrightarrow> map_of (clientsMap s) d = Some cd \<Longrightarrow> wsOpen cd \<Longrightarrow> (d \<in> set ks \<longrightarrow> isAlive cd)
         \<Longrightarrow> (d, UserLeft rid u n now) \<in> set (snd (fold (heartbeatClient now) ks (s, out)))"
proof (induction ks arbitrary: s out room cd)
  case Nil
  then show ?case by simp
next
  case (Cons k ks)
  obtain s' out' where step: "heartbeatClient now k (s, out) = (s', out')"
    by (cases "heartbeatClient now k (s, out)")
  show ?case
  proof (cases "k = c")
    case True
    let ?s0 = "s\<lparr>clientsMap := AList.update c (client\<lparr>wsOpen := False\<rparr>) (clientsMap s)\<rparr>"
    have c0: "map_of (clientsMap ?s0) c = Some (client\<lparr>wsOpen := False\<rparr>)"
      by (simp add: update_conv')
    have r0: "map_of (roomsMap ?s0) rid = Some room"
      using Cons.prems(4) by simp
    have "deliverable ?s0 d"
      using Cons.prems(6,7) assms(8) by (simp add: deliverable_def update_conv')
    with Cons.prems(5) assms(8)
    have "(d, UserLeft rid u n now) \<in> set (snd (handleDisconnect now c ?s0))"
      using handleDisconnect_output [OF c0 _ assms(3) r0, of u n now] assms(2,4-7)
      by simp
    with True step heartbeatClient_dead [OF Cons.prems(3) assms(1), of now out]
    have "(d, UserLeft rid u n now) \<in> set out'" by auto
    from heartbeat_output_grows [OF this] step show ?thesis by simp
  next
    case False
    with Cons.prems(2) have in_ks: "c \<in> set ks" by simp
    from Cons.prems(1) have dist: "distinct ks" and k_notin: "k \<notin> set ks" by simp_all
    from False heartbeatClient_clients_other [of k c now s out] step Cons.prems(3)
    have c': "map_of (clientsMap s') c = Some client" by simp
    show ?thesis
    proof (cases "k = d")
      case True
      with Cons.prems(8) have alive: "isAlive cd" by simp
      from True heartbeatClient_alive [OF _ alive, of s d now out] Cons.prems(6) step
      have s': "s' = s\<lparr>clientsMap := AList.update d (cd\<lparr>isAlive := False\<rparr>) (clientsMap s)\<rparr>"
        by simp
      have r': "map_of (roomsMap s') rid = Some room" using Cons.prems(4) by (simp add: s')
      have d': "map_of (clientsMap s') d = Some (cd\<lparr>isAlive := False\<rparr>)"
        by (simp add: s' update_conv')
      from True k_notin have "d \<notin> set ks" by simp
      with Cons.IH [OF dist in_ks c' r' Cons.prems(5) d', of out'] Cons.prems(7) step
      show ?thesis by simp
    next
      case kd: False
      then have "d \<noteq> k" by simp
      from heartbeatClient_keeps_member [OF Cons.prems(4,5) this, of now out] step
      obtain room' where r': "map_of (roomsMap s') rid = Some room'" "d \<in> set (clients room')"
        by auto
      from kd heartbeatClient_clients_other [of k d now s out] step Cons.prems(6)
      have d': "map_of (clientsMap s') d = Some cd" by simp
      from Cons.prems(8) have "d \<in> set ks \<longrightarrow> isAlive cd" by simp
      from Cons.IH [OF dist in_ks c' r' d' Cons.prems(7) this, of out'] step
      show ?thesis by simp
    qed
  qed
qed

lemma heartbeat_notifies_members:
  assumes "reachable s" and "map_of (clientsMap s) c = Some client" and "\<not> isAlive client"
    and "roomId client = Some rid" and "map_of (roomsMap s) rid = Some room"
    and "d \<in> set (clients room)" and "d \<noteq> c"
    and "map_of (clientsMap s) d = Some cd" and "wsOpen cd" and "isAlive cd"
  shows "\<exists>u n. userId client = Some u \<and> username client = Some n
               \<and> (d, UserLeft rid u n now) \<in> set (snd (heartbeat now s))"
proof -
  from assms(1) have cs: "consistent s" by (rule reachable_consistent)
  then have dk: "distinct (map fst (clientsMap s))" by (simp add: consistent_def distinct_keys_def)
  from cs assms(2,4) have "rid \<noteq> []" "truthy (userId client)" "truthy (username client)"
    unfolding consistent_def identified_def by blast+
  then obtain u n where
    who: "userId client = Some u" "username client = Some n" "u \<noteq> []" "n \<noteq> []" and rid: "rid \<noteq> []"
    by (auto simp: truthy_def split: option.splits)
  from assms(2) have "(c, client) \<in> set (clientsMap s)" by (rule map_of_SomeD)
  then have keys: "c \<in> set (map fst (clientsMap s))" by force
  have "(d, UserLeft rid u n now) \<in> set (snd (heartbeat now s))"
    unfolding heartbeat_def
    using heartbeat_notifies [OF assms(3,4) rid who assms(7) dk keys assms(2,5,6,8,9)] assms(10)
    by simp
  with who show ?thesis by blast
qed

end
